theory Spec2Isabelle
  imports Complex_Main "HOL-Library.Product_Lexorder" "HOL-Library.Multiset"
    "HOL-Library.Log_Nat"
begin

section \<open>JavaScript values and objects\<close>

text \<open>
  The rules engine keeps its configuration in object literals and indexes them with
  caller-supplied strings (\<^verbatim>\<open>this.rules[ruleId]\<close>, \<^verbatim>\<open>thresholds[thresholdKey]\<close>,
  \<^verbatim>\<open>this.suggestions[ruleId]\<close>). Reading a property of an object literal first looks at
  the object's own properties and then at \<^verbatim>\<open>Object.prototype\<close>, so a read by a name such
  as \<^verbatim>\<open>constructor\<close> yields an inherited member and not \<^verbatim>\<open>undefined\<close>.
  An object is modelled by the association list of its own properties; a read has three
  outcomes.
\<close>

datatype js_error = TypeError

datatype 'v property = Own 'v | Inherited | Absent

definition object_prototype_names :: "string list" where
  "object_prototype_names =
     [''constructor'', ''__proto__'', ''hasOwnProperty'', ''isPrototypeOf'',
      ''propertyIsEnumerable'', ''toLocaleString'', ''toString'', ''valueOf'',
      ''__defineGetter__'', ''__defineSetter__'', ''__lookupGetter__'',
      ''__lookupSetter__'']"

definition js_get :: "(string \<times> 'v) list \<Rightarrow> string \<Rightarrow> 'v property" where
  "js_get obj k =
     (case map_of obj k of
        Some v \<Rightarrow> Own v
      | None \<Rightarrow> if k \<in> set object_prototype_names then Inherited else Absent)"

text \<open>
  Threshold values: the numbers and the one string array of the configuration. A
  JavaScript number is a double; \<open>JNum\<close> carries its value.
\<close>

datatype jsval = JUndefined | JNum rat | JStr string | JStrs "string list"

text \<open>Decimal rendering of a non-negative integer, as template literals print it.\<close>

definition digit_char :: "nat \<Rightarrow> char" where
  "digit_char d = (''0123456789'' ! d)"

function show_nat :: "nat \<Rightarrow> string" where
  "show_nat n = (if n < 10 then [digit_char n] else show_nat (n div 10) @ [digit_char (n mod 10)])"
  by pat_completeness auto
termination
  by (relation "measure id") auto

declare show_nat.simps [simp del]

section \<open>IEEE doubles\<close>

text \<open>
  JavaScript numbers and SQLite's \<^verbatim>\<open>REAL\<close> values are IEEE 754 doubles. A finite double
  is a rational; \<open>double_of\<close> rounds a rational to the nearest double, ties to the even
  significand, as a correctly rounded division or multiplication does. Infinities and
  negative zero are not represented.
\<close>

definition pow2 :: "int \<Rightarrow> rat" where
  "pow2 e = (if 0 \<le> e then 2 ^ nat e else 1 / 2 ^ nat (- e))"

text \<open>
  The exponent \<open>e\<close> with \<open>2\<^sup>e \<le> x < 2\<^sup>e\<^sup>+\<^sup>1\<close>, for positive \<open>x\<close>: the numbers of binary
  digits of numerator and denominator (\<open>bitlen\<close>) differ by \<open>e\<close> or by \<open>e + 1\<close>.
\<close>

definition binary_exponent :: "rat \<Rightarrow> int" where
  "binary_exponent x =
     (let (a, b) = quotient_of x; k = bitlen a - bitlen b
      in if pow2 k \<le> x then k else k - 1)"

definition round_half_even :: "rat \<Rightarrow> int" where
  "round_half_even q =
     (let f = \<lfloor>q\<rfloor>; r = q - of_int f
      in if r < 1 / 2 then f else if 1 / 2 < r then f + 1 else if even f then f else f + 1)"

text \<open>
  A positive double is a multiple of \<open>2\<^sup>e\<^sup>-\<^sup>5\<^sup>2\<close> for its exponent \<open>e\<close>; below the normal
  range (\<open>e < -1022\<close>) the spacing stays \<open>2\<^sup>-\<^sup>1\<^sup>0\<^sup>7\<^sup>4\<close>.
\<close>

definition round_positive :: "rat \<Rightarrow> rat" where
  "round_positive x =
     (let ulp = pow2 (max (binary_exponent x) (- 1022) - 52)
      in of_int (round_half_even (x / ulp)) * ulp)"

definition double_of :: "rat \<Rightarrow> rat" where
  "double_of x =
     (if x = 0 then 0 else if x < 0 then - round_positive (- x) else round_positive x)"

text \<open>
  \<^verbatim>\<open>Number.prototype.toFixed(1)\<close> for a double below \<open>10\<^sup>2\<^sup>1\<close> in magnitude: the integer
  \<open>n\<close> with \<open>n / 10\<close> nearest to the value, the larger one of two, printed with a decimal
  point before its last digit; a negative value is printed as its magnitude after a minus
  sign.
\<close>

definition toFixed1_magnitude :: "rat \<Rightarrow> string" where
  "toFixed1_magnitude x =
     (let n = nat \<lfloor>x * 10 + 1 / 2\<rfloor>
      in show_nat (n div 10) @ ''.'' @ show_nat (n mod 10))"

definition toFixed1 :: "rat \<Rightarrow> string" where
  "toFixed1 x = (if x < 0 then ''-'' @ toFixed1_magnitude (- x) else toFixed1_magnitude x)"

section \<open>Suggestions\<close>

record suggestion =
  suggestionId :: string
  suggestionText :: string
  priority :: string

type_synonym catalog = "(string \<times> string list) list"

definition suggestions_catalog :: catalog where
  "suggestions_catalog =
    [(''lowClickRate'',
       [''Consider making the button more prominent with better contrast or size'',
        ''Review button placement - move critical actions above the fold'',
        ''Test different button text or calls-to-action'',
        ''Add visual affordances like hover effects or icons'',
        ''Ensure the button purpose is clear from surrounding context'']),
     (''lowScrollDepth'',
       [''Add engaging content above the fold to encourage scrolling'',
        ''Use visual cues like arrows or gradients to indicate more content below'',
        ''Break up long content with images, videos, or interactive elements'',
        ''Consider sticky navigation or progress indicators'',
        ''Review page loading speed - slow pages discourage scrolling'']),
     (''rageClicks'',
       [''Check if the element should be interactive - add proper click handlers'',
        ''Improve loading feedback - add spinners or disable buttons during processing'',
        ''Ensure click targets are large enough (minimum 44px)'',
        ''Fix any JavaScript errors that might prevent proper interaction'',
        ''Add clear visual feedback when elements are clicked'']),
     (''deadClicks'',
       [''Remove click events from non-interactive elements'',
        ''Style interactive elements to look clickable (buttons, links)'',
        ''Add proper semantic HTML - use buttons instead of divs for actions'',
        ''Ensure consistent interaction patterns across the interface'',
        ''Consider if users expect these elements to be interactive'']),
     (''highExitRate'',
       [''Improve page loading speed and performance'',
        ''Ensure the page content matches user expectations from the entry point'',
        ''Add clear navigation and breadcrumbs'',
        ''Include engaging content or clear calls-to-action early on the page'',
        ''Review and improve the page's value proposition''])]"

definition priority_of_index :: "nat \<Rightarrow> string" where
  "priority_of_index index =
     (if index = 0 then ''high'' else if index = 1 then ''medium'' else ''low'')"

definition make_suggestion :: "string \<Rightarrow> nat \<times> string \<Rightarrow> suggestion" where
  "make_suggestion ruleId it =
     \<lparr>suggestionId = ''suggestion-'' @ ruleId @ ''-'' @ show_nat (fst it),
      suggestionText = snd it,
      priority = priority_of_index (fst it)\<rparr>"

text \<open>
  \<^verbatim>\<open>const suggestions = this.suggestions[ruleId] || [];\<close>
  \<^verbatim>\<open>return suggestions.slice(0, 3).map((text, index) => ({...}));\<close>
  An inherited member is truthy and has no \<^verbatim>\<open>slice\<close>, so the call throws.
\<close>

definition getSuggestionsForRule :: "catalog \<Rightarrow> string \<Rightarrow> js_error + suggestion list" where
  "getSuggestionsForRule cat ruleId =
     (case js_get cat ruleId of
        Own texts \<Rightarrow> Inr (map (make_suggestion ruleId) (enumerate 0 (take 3 texts)))
      | Inherited \<Rightarrow> Inl TypeError
      | Absent \<Rightarrow> Inr [])"

section \<open>Metrics aggregation\<close>

text \<open>
  \<^verbatim>\<open>getAggregatedMetrics\<close> issues one \<^verbatim>\<open>db.all\<close> per entry of \<^verbatim>\<open>queries\<close>; each
  calls back once, with an error or with rows, in some order. The callbacks share
  \<^verbatim>\<open>results\<close>, \<^verbatim>\<open>completed\<close> and the promise, which settles at most once.
\<close>

type_synonym db_error = string

datatype 'a promise = Pending | Fulfilled 'a | Rejected db_error

definition resolve :: "'a \<Rightarrow> 'a promise \<Rightarrow> 'a promise" where
  "resolve v p = (case p of Pending \<Rightarrow> Fulfilled v | _ \<Rightarrow> p)"

definition reject :: "db_error \<Rightarrow> 'a promise \<Rightarrow> 'a promise" where
  "reject e p = (case p of Pending \<Rightarrow> Rejected e | _ \<Rightarrow> p)"

definition query_keys :: "string list" where
  "query_keys = [''totalEvents'', ''totalSessions'', ''topClickedElements'',
                 ''averageScrollDepth'', ''recentActivity'']"

record 'r metrics_state =
  results :: "(string \<times> 'r) list"
  completed :: nat
  settled :: "(string \<times> 'r) list promise"

definition put :: "string \<Rightarrow> 'v \<Rightarrow> (string \<times> 'v) list \<Rightarrow> (string \<times> 'v) list" where
  "put k v obj = (if k \<in> fst ` set obj then map (\<lambda>(k', v'). if k' = k then (k', v) else (k', v')) obj
                  else obj @ [(k, v)])"

definition metrics_callback ::
  "string \<Rightarrow> db_error + 'r \<Rightarrow> 'r metrics_state \<Rightarrow> 'r metrics_state" where
  "metrics_callback key outcome st =
     (case outcome of
        Inl err \<Rightarrow> st\<lparr>settled := reject err (settled st)\<rparr>
      | Inr rows \<Rightarrow>
          (let results' = put key rows (results st);
               completed' = completed st + 1
           in st\<lparr>results := results', completed := completed',
                 settled := (if completed' = length query_keys
                             then resolve results' (settled st) else settled st)\<rparr>))"

definition run_callbacks ::
  "(string \<Rightarrow> db_error + 'r) \<Rightarrow> string list \<Rightarrow> 'r metrics_state \<Rightarrow> 'r metrics_state" where
  "run_callbacks reads order st = foldl (\<lambda>s k. metrics_callback k (reads k) s) st order"

text \<open>
  \<open>reads\<close> gives the outcome of each named read, \<open>order\<close> the order in which the
  callbacks arrive (a rearrangement of the query names).
\<close>

definition getAggregatedMetrics ::
  "(string \<Rightarrow> db_error + 'r) \<Rightarrow> string list \<Rightarrow> (string \<times> 'r) list promise" where
  "getAggregatedMetrics reads order =
     settled (run_callbacks reads order \<lparr>results = [], completed = 0, settled = Pending\<rparr>)"

section \<open>Event store\<close>

text \<open>
  A row of table \<^verbatim>\<open>events\<close>, with the columns the rule queries read. The column
  \<^verbatim>\<open>id\<close> (row identity) is the position in the list; \<^verbatim>\<open>created_at\<close> is read by no
  rule query. \<^verbatim>\<open>timestamp\<close> holds epoch milliseconds. A quotient or average that
  SQLite computes in double precision is the exact quotient rounded by \<open>double_of\<close>; the
  counts it divides are below \<open>2\<^sup>5\<^sup>3\<close> and convert to doubles without rounding.
\<close>

record event =
  session_id :: string
  page_url :: string
  event_type :: string
  element_selector :: "string option"
  click_x :: "int option"
  click_y :: "int option"
  scroll_depth :: "rat option"
  timestamp :: int

subsection \<open>Batch insert\<close>





subsection \<open>SQL building blocks\<close>

text \<open>\<^verbatim>\<open>GROUP BY\<close>: one group per distinct key, holding the rows with that key.\<close>

definition group_by :: "('r \<Rightarrow> 'k) \<Rightarrow> 'r list \<Rightarrow> ('k \<times> 'r list) list" where
  "group_by key rows =
     map (\<lambda>k. (k, filter (\<lambda>r. key r = k) rows)) (remdups (map key rows))"

text \<open>\<^verbatim>\<open>COUNT(DISTINCT x)\<close> over the values of a group.\<close>

definition count_distinct :: "'a list \<Rightarrow> nat" where
  "count_distinct xs = length (remdups xs)"

text \<open>\<^verbatim>\<open>a = b\<close> on a nullable column: a comparison with NULL is not true.\<close>

definition sql_eq :: "'a option \<Rightarrow> 'a option \<Rightarrow> bool" where
  "sql_eq a b = (a \<noteq> None \<and> a = b)"

text \<open>
  \<^verbatim>\<open>LIKE\<close>: \<^verbatim>\<open>%\<close> matches any run of characters, \<^verbatim>\<open>_\<close> any single one, and every other
  pattern character matches itself; SQLite's \<^verbatim>\<open>LIKE\<close> ignores the case of ASCII
  letters (the engine never sets \<^verbatim>\<open>PRAGMA case_sensitive_like\<close>).
\<close>

definition lower :: "char \<Rightarrow> char" where
  "lower c =
     (case map_of (zip ''ABCDEFGHIJKLMNOPQRSTUVWXYZ'' ''abcdefghijklmnopqrstuvwxyz'') c of
        Some d \<Rightarrow> d
      | None \<Rightarrow> c)"

fun sql_like :: "string \<Rightarrow> string \<Rightarrow> bool" where
  "sql_like [] t = (t = [])"
| "sql_like (p # ps) [] = (p = CHR ''%'' \<and> sql_like ps [])"
| "sql_like (p # ps) (c # cs) =
     (if p = CHR ''%'' then sql_like ps (c # cs) \<or> sql_like (p # ps) cs
      else (p = CHR ''_'' \<or> lower p = lower c) \<and> sql_like ps cs)"

subsection \<open>Low click rate\<close>

text \<open>
  \<^verbatim>\<open>WITH page_session_counts AS (SELECT page_url, COUNT(DISTINCT session_id) AS page_sessions\<close>
  \<^verbatim>\<open>FROM events GROUP BY page_url)\<close>
\<close>

definition page_session_counts :: "event list \<Rightarrow> (string \<times> nat) list" where
  "page_session_counts events =
     map (\<lambda>(page, g). (page, count_distinct (map session_id g))) (group_by page_url events)"

text \<open>
  Result columns: \<^verbatim>\<open>element_selector, page_url, clicks, unique_sessions, page_sessions,\<close>
  \<^verbatim>\<open>click_rate\<close>. Bound parameters in order: \<^verbatim>\<open>[minPageViews, minClickRate]\<close>.
\<close>

type_synonym low_click_row = "string option \<times> string \<times> nat \<times> nat \<times> nat \<times> rat"

definition lowClickRate_query :: "rat \<Rightarrow> rat \<Rightarrow> event list \<Rightarrow> low_click_row list" where
  "lowClickRate_query minPageViews minClickRate events =
     (let joined = [(e, snd p). e \<leftarrow> events, p \<leftarrow> page_session_counts events,
                                fst p = page_url e];
          selected = filter (\<lambda>(e, page_sessions). event_type e = ''click''
                               \<and> element_selector e \<noteq> None
                               \<and> element_selector e \<noteq> Some []) joined;
          groups = group_by (\<lambda>(e, page_sessions).
                               (element_selector e, page_url e, page_sessions)) selected;
          rows = [(sel, page, length g, unique_sessions, page_sessions,
                   double_of (of_nat unique_sessions / of_nat page_sessions)).
                    ((sel, page, page_sessions), g) \<leftarrow> groups,
                    unique_sessions \<leftarrow> [count_distinct (map (session_id \<circ> fst) g)],
                    minPageViews \<le> of_nat page_sessions
                      \<and> double_of (of_nat unique_sessions / of_nat page_sessions)
                          < minClickRate]
      in sort_key (\<lambda>(sel, page, clicks, unique_sessions, page_sessions, click_rate).
                     (click_rate, - int clicks)) rows)"

subsection \<open>Low scroll depth\<close>

text \<open>
  Result columns: \<^verbatim>\<open>page_url, sessions, avg_scroll_depth, max_scroll_depth\<close>.
  Bound parameters in order: \<^verbatim>\<open>[minSessions, maxScrollDepth]\<close>.
\<close>

type_synonym low_scroll_row = "string \<times> nat \<times> rat \<times> rat"

text \<open>
  \<^verbatim>\<open>AVG(CAST(scroll_depth AS FLOAT))\<close> adds the depths of a group in double precision
  and divides the sum by their number. The average here is the exact mean rounded once:
  that is SQLite's result whenever the running sum is exact, as it is for the integer
  percentages of the tracker; for other depths the sum may round on the way and move
  the average in its last places.
\<close>

definition lowScrollDepth_query :: "rat \<Rightarrow> rat \<Rightarrow> event list \<Rightarrow> low_scroll_row list" where
  "lowScrollDepth_query minSessions maxScrollDepth events =
     (let selected = filter (\<lambda>e. event_type e = ''scroll'' \<and> scroll_depth e \<noteq> None) events;
          rows = [(page, sessions, avg_scroll_depth, Max (set depths)).
                    (page, g) \<leftarrow> group_by page_url selected,
                    sessions \<leftarrow> [count_distinct (map session_id g)],
                    depths \<leftarrow> [[d. e \<leftarrow> g, Some d \<leftarrow> [scroll_depth e]]],
                    avg_scroll_depth \<leftarrow> [double_of (sum_list depths / of_nat (length depths))],
                    minSessions \<le> of_nat sessions \<and> avg_scroll_depth < maxScrollDepth]
      in sort_key (\<lambda>(page, sessions, avg_scroll_depth, max_scroll_depth).
                     avg_scroll_depth) rows)"

subsection \<open>Rage clicks\<close>

text \<open>
  The inner query joins \<^verbatim>\<open>events e1\<close> with \<^verbatim>\<open>events e2\<close> on equal session, equal
  selector and \<^verbatim>\<open>e2.timestamp BETWEEN e1.timestamp AND e1.timestamp + ?\<close>, keeps click
  pairs, and groups by \<^verbatim>\<open>e1.session_id, e1.element_selector, e1.timestamp\<close>.
  \<^verbatim>\<open>e1.page_url\<close> is selected without being a grouping column: SQLite takes it from one
  row of the group, here the first. All rows of a group agree on it unless one session has
  clicks on one selector with equal timestamps on two pages.
\<close>

type_synonym rapid_sequence = "string \<times> string option \<times> string \<times> int \<times> nat"

definition rapid_sequences :: "rat \<Rightarrow> rat \<Rightarrow> event list \<Rightarrow> rapid_sequence list" where
  "rapid_sequences timeWindow clicksInWindow events =
     (let joined = [(e1, e2). e1 \<leftarrow> events, e2 \<leftarrow> events,
                      session_id e1 = session_id e2
                        \<and> sql_eq (element_selector e1) (element_selector e2)
                        \<and> of_int (timestamp e1) \<le> (of_int (timestamp e2) :: rat)
                        \<and> of_int (timestamp e2) \<le> of_int (timestamp e1) + timeWindow,
                      event_type e1 = ''click'' \<and> event_type e2 = ''click''
                        \<and> element_selector e1 \<noteq> None]
      in [(session_id e1, element_selector e1, page_url e1, timestamp e1, length g).
            (k, g) \<leftarrow> group_by (\<lambda>(e1, e2). (session_id e1, element_selector e1, timestamp e1))
                        joined,
            (e1, e2) \<leftarrow> take 1 g,
            clicksInWindow \<le> of_nat (length g)])"

text \<open>
  \<^verbatim>\<open>rage_click_sessions\<close>: columns \<^verbatim>\<open>session_id, element_selector, page_url, rapid_clicks\<close>.
\<close>

definition rage_click_sessions ::
  "rat \<Rightarrow> rat \<Rightarrow> event list \<Rightarrow> (string \<times> string option \<times> string \<times> nat) list" where
  "rage_click_sessions timeWindow clicksInWindow events =
     [(session, sel, page, length g).
        ((session, sel, page), g) \<leftarrow>
           group_by (\<lambda>(session, sel, page, ts, clicks_in_window). (session, sel, page))
             (rapid_sequences timeWindow clicksInWindow events)]"

text \<open>
  Result columns: \<^verbatim>\<open>element_selector, page_url, affected_sessions, total_rage_clicks,\<close>
  \<^verbatim>\<open>avg_rage_clicks_per_session\<close>. Bound parameters in order:
  \<^verbatim>\<open>[timeWindow, clicksInWindow, minOccurrences]\<close>.
\<close>

type_synonym rage_row = "string option \<times> string \<times> nat \<times> nat \<times> rat"

definition rageClicks_query :: "rat \<Rightarrow> rat \<Rightarrow> rat \<Rightarrow> event list \<Rightarrow> rage_row list" where
  "rageClicks_query timeWindow clicksInWindow minOccurrences events =
     (let rows = [(sel, page, length g, total_rage_clicks,
                   double_of (of_nat total_rage_clicks / of_nat (length g))).
                    ((sel, page), g) \<leftarrow>
                       group_by (\<lambda>(session, sel, page, rapid_clicks). (sel, page))
                         (rage_click_sessions timeWindow clicksInWindow events),
                    total_rage_clicks \<leftarrow> [sum_list (map (\<lambda>(session, sel, page, rapid_clicks).
                                                rapid_clicks) g)],
                    minOccurrences \<le> of_nat (length g)]
      in sort_key (\<lambda>(sel, page, affected_sessions, total_rage_clicks, avg).
                     (- int affected_sessions, - int total_rage_clicks)) rows)"

subsection \<open>Dead clicks\<close>

text \<open>
  The whitelist entries are spliced into the statement as
  \<^verbatim>\<open>element_selector LIKE 'div%' OR element_selector LIKE 'span%' OR ...\<close>
  Result columns: \<^verbatim>\<open>element_selector, page_url, clicks, unique_sessions\<close>.
  Bound parameter: \<^verbatim>\<open>[minClicksOnNonInteractive]\<close>.
\<close>

definition matches_non_interactive :: "string list \<Rightarrow> string \<Rightarrow> bool" where
  "matches_non_interactive nonInteractiveSelectors s =
     list_ex (\<lambda>sel. sql_like (sel @ ''%'') s) nonInteractiveSelectors"

type_synonym dead_row = "string option \<times> string \<times> nat \<times> nat"

definition deadClicks_query :: "string list \<Rightarrow> rat \<Rightarrow> event list \<Rightarrow> dead_row list" where
  "deadClicks_query nonInteractiveSelectors minClicksOnNonInteractive events =
     (let selected = filter (\<lambda>e. event_type e = ''click''
                                \<and> (case element_selector e of
                                     None \<Rightarrow> False
                                   | Some s \<Rightarrow> matches_non_interactive nonInteractiveSelectors s))
                       events;
          rows = [(sel, page, length g, count_distinct (map session_id g)).
                    ((sel, page), g) \<leftarrow> group_by (\<lambda>e. (element_selector e, page_url e)) selected,
                    minClicksOnNonInteractive \<le> of_nat (length g)]
      in sort_key (\<lambda>(sel, page, clicks, unique_sessions). - int clicks) rows)"

subsection \<open>High exit rate\<close>

text \<open>
  \<^verbatim>\<open>WITH session_durations AS (SELECT page_url, session_id,\<close>
  \<^verbatim>\<open>(MAX(timestamp) - MIN(timestamp)) AS duration FROM events GROUP BY page_url, session_id)\<close>
\<close>

definition session_durations :: "event list \<Rightarrow> (string \<times> string \<times> int) list" where
  "session_durations events =
     [(page, session, Max (timestamp ` set g) - Min (timestamp ` set g)).
        ((page, session), g) \<leftarrow> group_by (\<lambda>e. (page_url e, session_id e)) events]"

text \<open>
  Result columns: \<^verbatim>\<open>page_url, sessions, quick_exit_sessions, exit_rate\<close>. Bound parameters
  in order: \<^verbatim>\<open>[maxInteractionTime, maxInteractionTime, minSessions]\<close>; the bound
  \<^verbatim>\<open>0.5\<close> is part of the statement text.
\<close>

type_synonym exit_row = "string \<times> nat \<times> nat \<times> rat"

definition highExitRate_query :: "rat \<Rightarrow> rat \<Rightarrow> event list \<Rightarrow> exit_row list" where
  "highExitRate_query maxInteractionTime minSessions events =
     (let rows = [(page, length g, quick_exit_sessions,
                   double_of (of_nat quick_exit_sessions / of_nat (length g))).
                    (page, g) \<leftarrow> group_by (\<lambda>(page, session, duration). page)
                                    (session_durations events),
                    quick_exit_sessions \<leftarrow>
                       [length (filter (\<lambda>(page, session, duration).
                                          of_int duration \<le> maxInteractionTime) g)],
                    minSessions \<le> of_nat (length g)
                      \<and> double_of (of_nat quick_exit_sessions / of_nat (length g))
                          > (1 / 2 :: rat)]
      in sort_key (\<lambda>(page, sessions, quick_exit_sessions, exit_rate).
                     (- exit_rate, - int sessions)) rows)"

section \<open>Rules engine\<close>

subsection \<open>Configuration\<close>

record rule =
  rule_name :: string
  rule_description :: string
  thresholds :: "(string \<times> jsval) list"
  rule_severity :: string

type_synonym rules = "(string \<times> rule) list"

text \<open>
  The object literal that the constructor stores in \<^verbatim>\<open>this.rules\<close>. The literal
  \<^verbatim>\<open>0.05\<close> denotes the double nearest to one twentieth.
\<close>

definition new_rules :: rules where
  "new_rules =
    [(''lowClickRate'',
       \<lparr>rule_name = ''Low Click Rate'',
        rule_description =
          ''Identifies buttons/links with low click rates relative to page views'',
        thresholds = [(''minClickRate'', JNum (double_of (5 / 100))),
                      (''minPageViews'', JNum 10)],
        rule_severity = ''medium''\<rparr>),
     (''lowScrollDepth'',
       \<lparr>rule_name = ''Low Scroll Depth'',
        rule_description = ''Identifies pages where users scroll less than expected'',
        thresholds = [(''maxScrollDepth'', JNum 30), (''minSessions'', JNum 5)],
        rule_severity = ''low''\<rparr>),
     (''rageClicks'',
       \<lparr>rule_name = ''Rage Clicks'',
        rule_description =
          ''Identifies elements with multiple rapid clicks indicating frustration'',
        thresholds = [(''clicksInWindow'', JNum 3), (''timeWindow'', JNum 2000),
                      (''minOccurrences'', JNum 2)],
        rule_severity = ''high''\<rparr>),
     (''deadClicks'',
       \<lparr>rule_name = ''Dead Clicks'',
        rule_description = ''Identifies non-interactive elements being clicked frequently'',
        thresholds = [(''minClicksOnNonInteractive'', JNum 5),
                      (''nonInteractiveSelectors'',
                         JStrs [''div'', ''span'', ''p'', ''h1'', ''h2'', ''h3'', ''h4'', ''h5'',
                                ''h6''])],
        rule_severity = ''medium''\<rparr>),
     (''highExitRate'',
       \<lparr>rule_name = ''High Exit Rate'',
        rule_description =
          ''Identifies pages with high exit rates without significant interaction'',
        thresholds = [(''maxInteractionTime'', JNum 10000), (''minSessions'', JNum 5)],
        rule_severity = ''medium''\<rparr>)]"

record rules_engine =
  rules :: rules
  suggestionCatalog :: catalog

definition new_RulesEngine :: rules_engine where
  "new_RulesEngine = \<lparr>rules = new_rules, suggestionCatalog = suggestions_catalog\<rparr>"

text \<open>
  \<^verbatim>\<open>thresholds[thresholdKey]\<close> as a value: an inherited member is some function or
  object, in any case not \<^verbatim>\<open>undefined\<close>.
\<close>

definition defined_property :: "(string \<times> jsval) list \<Rightarrow> string \<Rightarrow> bool" where
  "defined_property obj k =
     (case js_get obj k of Own v \<Rightarrow> v \<noteq> JUndefined | Inherited \<Rightarrow> True | Absent \<Rightarrow> False)"

text \<open>
  \<^verbatim>\<open>updateRuleThreshold(ruleId, thresholdKey, value)\<close>. When \<^verbatim>\<open>this.rules[ruleId]\<close> is
  an inherited member it is truthy, its \<^verbatim>\<open>thresholds\<close> is \<^verbatim>\<open>undefined\<close>, and indexing
  that throws. The assignment creates or overwrites an own property; the key
  \<^verbatim>\<open>__proto__\<close> is the exception, where an assignment sets the prototype instead. That
  case is outside this model (result \<open>None\<close>).
\<close>

definition updateRuleThreshold ::
  "rules \<Rightarrow> string \<Rightarrow> string \<Rightarrow> jsval \<Rightarrow> (js_error + bool \<times> rules) option" where
  "updateRuleThreshold rs ruleId thresholdKey v =
     (case js_get rs ruleId of
        Own r \<Rightarrow>
          if defined_property (thresholds r) thresholdKey
          then (if thresholdKey = ''__proto__'' \<and> js_get (thresholds r) thresholdKey = Inherited
                then None
                else Some (Inr (True,
                       put ruleId (r\<lparr>thresholds := put thresholdKey v (thresholds r)\<rparr>) rs)))
          else Some (Inr (False, rs))
      | Inherited \<Rightarrow> Some (Inl TypeError)
      | Absent \<Rightarrow> Some (Inr (False, rs)))"

subsection \<open>Issues\<close>

record issue =
  issueId :: string
  ruleId :: string
  ruleName :: string
  severity :: string
  elementSelector :: "string option"
  pageUrl :: string
  description :: string
  metrics :: "(string \<times> rat) list"
  suggestions :: "suggestion list option"
  detectedAt :: "string option"

text \<open>
  What a call reads from outside the store while it builds issues: the clock and the
  random source behind the identifiers (per detector and row), and the clock behind
  \<^verbatim>\<open>detectedAt\<close> (per issue).
\<close>

record env =
  dateNow :: "string \<Rightarrow> nat \<Rightarrow> nat"
  randomSuffix :: "string \<Rightarrow> nat \<Rightarrow> string"
  toISOString :: "nat \<Rightarrow> string"

definition fresh_id :: "env \<Rightarrow> string \<Rightarrow> string \<Rightarrow> nat \<Rightarrow> string" where
  "fresh_id env rid prefix i =
     prefix @ ''-'' @ show_nat (dateNow env rid i) @ ''-'' @ randomSuffix env rid i"

text \<open>A nullable text column inside a template literal.\<close>

definition show_text :: "string option \<Rightarrow> string" where
  "show_text s = (case s of None \<Rightarrow> ''null'' | Some t \<Rightarrow> t)"

definition lowClickRate_issue :: "rule \<Rightarrow> env \<Rightarrow> nat \<times> low_click_row \<Rightarrow> issue" where
  "lowClickRate_issue r env = (\<lambda>(i, element_selector, page_url, clicks, unique_sessions,
                                   page_sessions, click_rate).
     \<lparr>issueId = fresh_id env ''lowClickRate'' ''low-click-rate'' i,
      ruleId = ''lowClickRate'',
      ruleName = rule_name r,
      severity = rule_severity r,
      elementSelector = element_selector,
      pageUrl = page_url,
      description = ''Low click rate ('' @ toFixed1 (double_of (click_rate * 100))
                      @ ''%) on \"''
                      @ show_text element_selector @ ''\"'',
      metrics = [(''clickRate'', click_rate), (''clicks'', of_nat clicks),
                 (''uniqueSessions'', of_nat unique_sessions),
                 (''pageSessions'', of_nat page_sessions)],
      suggestions = None,
      detectedAt = None\<rparr>)"

definition lowScrollDepth_issue :: "rule \<Rightarrow> env \<Rightarrow> nat \<times> low_scroll_row \<Rightarrow> issue" where
  "lowScrollDepth_issue r env = (\<lambda>(i, page_url, sessions, avg_scroll_depth, max_scroll_depth).
     \<lparr>issueId = fresh_id env ''lowScrollDepth'' ''low-scroll-depth'' i,
      ruleId = ''lowScrollDepth'',
      ruleName = rule_name r,
      severity = rule_severity r,
      elementSelector = None,
      pageUrl = page_url,
      description = ''Low average scroll depth ('' @ toFixed1 avg_scroll_depth
                      @ ''%) on page'',
      metrics = [(''avgScrollDepth'', avg_scroll_depth), (''maxScrollDepth'', max_scroll_depth),
                 (''sessions'', of_nat sessions)],
      suggestions = None,
      detectedAt = None\<rparr>)"

definition rageClicks_issue :: "rule \<Rightarrow> env \<Rightarrow> nat \<times> rage_row \<Rightarrow> issue" where
  "rageClicks_issue r env = (\<lambda>(i, element_selector, page_url, affected_sessions,
                                 total_rage_clicks, avg_rage_clicks_per_session).
     \<lparr>issueId = fresh_id env ''rageClicks'' ''rage-clicks'' i,
      ruleId = ''rageClicks'',
      ruleName = rule_name r,
      severity = rule_severity r,
      elementSelector = element_selector,
      pageUrl = page_url,
      description = ''Rage clicks detected on \"'' @ show_text element_selector @ ''\" (''
                      @ show_nat affected_sessions @ '' sessions affected)'',
      metrics = [(''affectedSessions'', of_nat affected_sessions),
                 (''totalRageClicks'', of_nat total_rage_clicks),
                 (''avgRageClicksPerSession'', avg_rage_clicks_per_session)],
      suggestions = None,
      detectedAt = None\<rparr>)"

definition deadClicks_issue :: "rule \<Rightarrow> env \<Rightarrow> nat \<times> dead_row \<Rightarrow> issue" where
  "deadClicks_issue r env = (\<lambda>(i, element_selector, page_url, clicks, unique_sessions).
     \<lparr>issueId = fresh_id env ''deadClicks'' ''dead-clicks'' i,
      ruleId = ''deadClicks'',
      ruleName = rule_name r,
      severity = rule_severity r,
      elementSelector = element_selector,
      pageUrl = page_url,
      description = ''Dead clicks on non-interactive element \"'' @ show_text element_selector
                      @ ''\" ('' @ show_nat clicks @ '' clicks)'',
      metrics = [(''clicks'', of_nat clicks), (''uniqueSessions'', of_nat unique_sessions)],
      suggestions = None,
      detectedAt = None\<rparr>)"

definition highExitRate_issue :: "rule \<Rightarrow> env \<Rightarrow> nat \<times> exit_row \<Rightarrow> issue" where
  "highExitRate_issue r env = (\<lambda>(i, page_url, sessions, quick_exit_sessions, exit_rate).
     \<lparr>issueId = fresh_id env ''highExitRate'' ''high-exit-rate'' i,
      ruleId = ''highExitRate'',
      ruleName = rule_name r,
      severity = rule_severity r,
      elementSelector = None,
      pageUrl = page_url,
      description = ''High exit rate ('' @ toFixed1 (double_of (exit_rate * 100))
                      @ ''%) with minimal interaction'',
      metrics = [(''exitRate'', exit_rate), (''sessions'', of_nat sessions),
                 (''quickExitSessions'', of_nat quick_exit_sessions)],
      suggestions = None,
      detectedAt = None\<rparr>)"

subsection \<open>Detectors\<close>

datatype failure = DbFailure db_error | JsFailure js_error

text \<open>
  One \<^verbatim>\<open>db.all(query, params, callback)\<close>: the driver reports an error or the rows of the
  query. Whether the read fails is an input (\<open>None\<close>: it succeeds).
\<close>

definition db_all :: "db_error option \<Rightarrow> 'r list \<Rightarrow> db_error + 'r list" where
  "db_all io rows = (case io of Some err \<Rightarrow> Inl err | None \<Rightarrow> Inr rows)"

text \<open>
  \<^verbatim>\<open>const { minClickRate, minPageViews } = this.rules.lowClickRate.thresholds;\<close>
  A missing property reads as \<^verbatim>\<open>undefined\<close>. The queries are modelled for numeric
  parameters; a detector whose thresholds are not numbers is outside the model (\<open>None\<close>).
\<close>

definition threshold :: "rule \<Rightarrow> string \<Rightarrow> jsval" where
  "threshold r k = (case map_of (thresholds r) k of Some v \<Rightarrow> v | None \<Rightarrow> JUndefined)"

definition num :: "jsval \<Rightarrow> rat option" where
  "num v = (case v of JNum q \<Rightarrow> Some q | _ \<Rightarrow> None)"

definition strs :: "jsval \<Rightarrow> string list option" where
  "strs v = (case v of JStrs xs \<Rightarrow> Some xs | _ \<Rightarrow> None)"

definition respond ::
  "db_error option \<Rightarrow> 'r list \<Rightarrow> (nat \<times> 'r \<Rightarrow> issue) \<Rightarrow> failure + issue list" where
  "respond io rows mk =
     (case db_all io rows of
        Inl err \<Rightarrow> Inl (DbFailure err)
      | Inr rows' \<Rightarrow> Inr (map mk (enumerate 0 rows')))"

definition analyzeLowClickRate ::
  "rules \<Rightarrow> env \<Rightarrow> db_error option \<Rightarrow> event list \<Rightarrow> (failure + issue list) option" where
  "analyzeLowClickRate rs env io events =
     (case js_get rs ''lowClickRate'' of
        Own r \<Rightarrow>
          (case (num (threshold r ''minClickRate''), num (threshold r ''minPageViews'')) of
             (Some minClickRate, Some minPageViews) \<Rightarrow>
               Some (respond io (lowClickRate_query minPageViews minClickRate events)
                       (lowClickRate_issue r env))
           | _ \<Rightarrow> None)
      | _ \<Rightarrow> Some (Inl (JsFailure TypeError)))"

text \<open>
  From \<open>10\<^sup>2\<^sup>1\<close> on \<^verbatim>\<open>toFixed\<close> prints a number in exponent notation; rows with such
  an average scroll depth are outside the model.
\<close>

definition analyzeLowScrollDepth ::
  "rules \<Rightarrow> env \<Rightarrow> db_error option \<Rightarrow> event list \<Rightarrow> (failure + issue list) option" where
  "analyzeLowScrollDepth rs env io events =
     (case js_get rs ''lowScrollDepth'' of
        Own r \<Rightarrow>
          (case (num (threshold r ''maxScrollDepth''), num (threshold r ''minSessions'')) of
             (Some maxScrollDepth, Some minSessions) \<Rightarrow>
               if io = None
                  \<and> list_ex (\<lambda>(page, sessions, avg_scroll_depth, max_scroll_depth).
                               10 ^ 21 \<le> \<bar>avg_scroll_depth\<bar>)
                        (lowScrollDepth_query minSessions maxScrollDepth events)
               then None
               else Some (respond io (lowScrollDepth_query minSessions maxScrollDepth events)
                            (lowScrollDepth_issue r env))
           | _ \<Rightarrow> None)
      | _ \<Rightarrow> Some (Inl (JsFailure TypeError)))"

definition analyzeRageClicks ::
  "rules \<Rightarrow> env \<Rightarrow> db_error option \<Rightarrow> event list \<Rightarrow> (failure + issue list) option" where
  "analyzeRageClicks rs env io events =
     (case js_get rs ''rageClicks'' of
        Own r \<Rightarrow>
          (case (num (threshold r ''clicksInWindow''), num (threshold r ''timeWindow''),
                 num (threshold r ''minOccurrences'')) of
             (Some clicksInWindow, Some timeWindow, Some minOccurrences) \<Rightarrow>
               Some (respond io (rageClicks_query timeWindow clicksInWindow minOccurrences events)
                       (rageClicks_issue r env))
           | _ \<Rightarrow> None)
      | _ \<Rightarrow> Some (Inl (JsFailure TypeError)))"

text \<open>
  With an empty whitelist the spliced condition is \<^verbatim>\<open>AND ()\<close> and the statement does not
  parse. An entry with a quote character would change the statement itself; that is
  outside the model.
\<close>

definition analyzeDeadClicks ::
  "rules \<Rightarrow> env \<Rightarrow> db_error option \<Rightarrow> event list \<Rightarrow> (failure + issue list) option" where
  "analyzeDeadClicks rs env io events =
     (case js_get rs ''deadClicks'' of
        Own r \<Rightarrow>
          (case (num (threshold r ''minClicksOnNonInteractive''),
                 strs (threshold r ''nonInteractiveSelectors'')) of
             (Some minClicksOnNonInteractive, Some nonInteractiveSelectors) \<Rightarrow>
               if list_ex (\<lambda>sel. CHR 0x27 \<in> set sel) nonInteractiveSelectors then None
               else if nonInteractiveSelectors = []
               then Some (Inl (DbFailure ''SQLITE_ERROR''))
               else Some (respond io
                            (deadClicks_query nonInteractiveSelectors minClicksOnNonInteractive
                               events)
                            (deadClicks_issue r env))
           | _ \<Rightarrow> None)
      | _ \<Rightarrow> Some (Inl (JsFailure TypeError)))"

definition analyzeHighExitRate ::
  "rules \<Rightarrow> env \<Rightarrow> db_error option \<Rightarrow> event list \<Rightarrow> (failure + issue list) option" where
  "analyzeHighExitRate rs env io events =
     (case js_get rs ''highExitRate'' of
        Own r \<Rightarrow>
          (case (num (threshold r ''maxInteractionTime''), num (threshold r ''minSessions'')) of
             (Some maxInteractionTime, Some minSessions) \<Rightarrow>
               Some (respond io (highExitRate_query maxInteractionTime minSessions events)
                       (highExitRate_issue r env))
           | _ \<Rightarrow> None)
      | _ \<Rightarrow> Some (Inl (JsFailure TypeError)))"

subsection \<open>All rules\<close>

text \<open>
  \<^verbatim>\<open>Promise.all\<close> over the five detector promises: the results in array order, or a
  rejection. When several detectors fail, the rejection that arrives first wins; the
  model reports the first in array order.
\<close>

fun promise_all :: "(failure + 'a) list \<Rightarrow> failure + 'a list" where
  "promise_all [] = Inr []"
| "promise_all (p # ps) =
     (case p of
        Inl f \<Rightarrow> Inl f
      | Inr v \<Rightarrow> (case promise_all ps of Inl f \<Rightarrow> Inl f | Inr vs \<Rightarrow> Inr (v # vs)))"

text \<open>
  \<^verbatim>\<open>issues.forEach(issue => { issue.suggestions = this.getSuggestionsForRule(issue.ruleId);\<close>
  \<^verbatim>\<open>issue.detectedAt = new Date().toISOString(); })\<close>; a throw ends the loop.
\<close>

definition attach_suggestions :: "catalog \<Rightarrow> env \<Rightarrow> nat \<times> issue \<Rightarrow> js_error + issue" where
  "attach_suggestions cat env it =
     (case getSuggestionsForRule cat (ruleId (snd it)) of
        Inl e \<Rightarrow> Inl e
      | Inr s \<Rightarrow> Inr ((snd it)\<lparr>suggestions := Some s,
                                detectedAt := Some (toISOString env (fst it))\<rparr>))"

fun for_each :: "('a \<Rightarrow> js_error + 'b) \<Rightarrow> 'a list \<Rightarrow> js_error + 'b list" where
  "for_each f [] = Inr []"
| "for_each f (x # xs) =
     (case f x of
        Inl e \<Rightarrow> Inl e
      | Inr y \<Rightarrow> (case for_each f xs of Inl e \<Rightarrow> Inl e | Inr ys \<Rightarrow> Inr (y # ys)))"

definition analyzeAllRules ::
  "rules_engine \<Rightarrow> env \<Rightarrow> (string \<Rightarrow> db_error option) \<Rightarrow> event list
     \<Rightarrow> (failure + issue list) option" where
  "analyzeAllRules eng env io events =
     (case (analyzeLowClickRate (rules eng) env (io ''lowClickRate'') events,
            analyzeLowScrollDepth (rules eng) env (io ''lowScrollDepth'') events,
            analyzeRageClicks (rules eng) env (io ''rageClicks'') events,
            analyzeDeadClicks (rules eng) env (io ''deadClicks'') events,
            analyzeHighExitRate (rules eng) env (io ''highExitRate'') events) of
        (Some lowClickRateIssues, Some lowScrollDepthIssues, Some rageClickIssues,
         Some deadClickIssues, Some highExitRateIssues) \<Rightarrow>
          Some (case promise_all [lowClickRateIssues, lowScrollDepthIssues, rageClickIssues,
                                  deadClickIssues, highExitRateIssues] of
                  Inl f \<Rightarrow> Inl f
                | Inr found \<Rightarrow>
                    (case for_each (attach_suggestions (suggestionCatalog eng) env)
                            (enumerate 0 (concat found)) of
                       Inl e \<Rightarrow> Inl (JsFailure e)
                     | Inr issues \<Rightarrow> Inr issues))
      | _ \<Rightarrow> None)"

text \<open>The identifiers of the five detectors.\<close>

definition rule_ids :: "string list" where
  "rule_ids = [''lowClickRate'', ''lowScrollDepth'', ''rageClicks'', ''deadClicks'',
               ''highExitRate'']"

text \<open>\<^verbatim>\<open>this.suggestions[ruleId] || []\<close> for a rule identifier that is no inherited name.\<close>

definition catalog_texts :: "catalog \<Rightarrow> string \<Rightarrow> string list" where
  "catalog_texts cat rid = (case map_of cat rid of Some texts \<Rightarrow> texts | None \<Rightarrow> [])"

section \<open>Sample data\<close>

text \<open>Events as the test data generator writes them.\<close>

definition click :: "string \<Rightarrow> string \<Rightarrow> string \<Rightarrow> int \<Rightarrow> event" where
  "click session page sel ts =
     \<lparr>session_id = session, page_url = page, event_type = ''click'',
      element_selector = Some sel, click_x = Some 300, click_y = Some 200,
      scroll_depth = None, timestamp = ts\<rparr>"

definition scroll :: "string \<Rightarrow> string \<Rightarrow> rat \<Rightarrow> int \<Rightarrow> event" where
  "scroll session page depth ts =
     \<lparr>session_id = session, page_url = page, event_type = ''scroll'',
      element_selector = None, click_x = None, click_y = None,
      scroll_depth = Some depth, timestamp = ts\<rparr>"

definition env0 :: env where
  "env0 = \<lparr>dateNow = (\<lambda>rid i. 170 + i), randomSuffix = (\<lambda>rid i. ''k3x9q2m1z''),
           toISOString = (\<lambda>i. ''2023-11-14T22:13:20.000Z'')\<rparr>"

definition later_env :: env where
  "later_env = \<lparr>dateNow = (\<lambda>rid i. 536 + 7 * i), randomSuffix = (\<lambda>rid i. ''p0o9i8u7y''),
           toISOString = (\<lambda>i. ''2023-11-14T22:19:20.000Z'')\<rparr>"

text \<open>Four sessions, five clicks on a non-interactive element.\<close>

definition dead_db :: "event list" where
  "dead_db =
     [click ''session-dead-0'' ''/product-page'' ''div.product-image'' 0,
      click ''session-dead-1'' ''/product-page'' ''div.product-image'' 180000,
      click ''session-dead-2'' ''/product-page'' ''div.product-image'' 360000,
      click ''session-dead-3'' ''/product-page'' ''div.product-image'' 540000,
      click ''session-dead-0'' ''/product-page'' ''div.product-image'' 720000]"

text \<open>Three clicks of one session on one selector within the window, spread over two pages.\<close>

definition two_page_db :: "event list" where
  "two_page_db =
     [click ''session-a'' ''/cart'' ''#buy'' 1000,
      click ''session-a'' ''/cart'' ''#buy'' 1500,
      click ''session-a'' ''/checkout'' ''#buy'' 2000,
      click ''session-b'' ''/cart'' ''#buy'' 301000,
      click ''session-b'' ''/cart'' ''#buy'' 301500,
      click ''session-b'' ''/checkout'' ''#buy'' 302000]"

text \<open>Two sessions, each with two clicks that carry the same timestamp.\<close>

definition double_click_db :: "event list" where
  "double_click_db =
     [click ''session-rage-0'' ''/checkout'' ''button.submit-order'' 1000000,
      click ''session-rage-0'' ''/checkout'' ''button.submit-order'' 1000000,
      click ''session-rage-1'' ''/checkout'' ''button.submit-order'' 1300000,
      click ''session-rage-1'' ''/checkout'' ''button.submit-order'' 1300000]"

text \<open>Five clicks on a selector whose tag is written in upper case.\<close>

definition upper_db :: "event list" where
  "upper_db =
     [click ''session-dead-0'' ''/product-page'' ''DIV.product-image'' 0,
      click ''session-dead-1'' ''/product-page'' ''DIV.product-image'' 180000,
      click ''session-dead-2'' ''/product-page'' ''DIV.product-image'' 360000,
      click ''session-dead-3'' ''/product-page'' ''DIV.product-image'' 540000,
      click ''session-dead-4'' ''/product-page'' ''DIV.product-image'' 720000]"

text \<open>
  Six sessions on one page: four with a single event, one that ends after two seconds,
  one that stays for twenty.
\<close>

definition exit_db :: "event list" where
  "exit_db =
     [scroll ''session-quick-exit-0'' ''/pricing'' 4 0,
      scroll ''session-quick-exit-1'' ''/pricing'' 7 240000,
      click ''session-quick-exit-2'' ''/pricing'' ''a.plan'' 480000,
      scroll ''session-quick-exit-3'' ''/pricing'' 2 720000,
      scroll ''session-quick-exit-4'' ''/pricing'' 9 960000,
      click ''session-quick-exit-4'' ''/pricing'' ''a.plan'' 962000,
      scroll ''session-quick-exit-5'' ''/pricing'' 5 1200000,
      scroll ''session-quick-exit-5'' ''/pricing'' 60 1220000,
      scroll ''session-quick-exit-5'' ''/homepage'' 60 1230000]"

text \<open>
  A configuration after \<^verbatim>\<open>updateRuleThreshold(ruleId, thresholdKey, value)\<close>; the
  configuration as it was when the call changes nothing.
\<close>

definition with_threshold :: "string \<Rightarrow> string \<Rightarrow> jsval \<Rightarrow> rules \<Rightarrow> rules" where
  "with_threshold rid key v rs =
     (case updateRuleThreshold rs rid key v of Some (Inr (True, rs')) \<Rightarrow> rs' | _ \<Rightarrow> rs)"

text \<open>
  Three sessions view the landing page and one of them clicks the call to action; two
  sessions view a small page and one of them clicks. Thresholds: three page views and a
  click rate of three quarters.
\<close>

definition landing_db :: "event list" where
  "landing_db =
     [scroll ''session-low-click-0'' ''/landing-page'' 40 0,
      scroll ''session-low-click-1'' ''/landing-page'' 55 60000,
      scroll ''session-low-click-2'' ''/landing-page'' 90 120000,
      click ''session-low-click-0'' ''/landing-page'' ''button.cta-primary'' 30000,
      click ''session-low-click-0'' ''/landing-page'' ''button.cta-primary'' 31000,
      scroll ''session-low-click-3'' ''/small-page'' 20 150000,
      click ''session-low-click-4'' ''/small-page'' ''button.cta-primary'' 180000]"

definition lowered_rules :: rules where
  "lowered_rules =
     with_threshold ''lowClickRate'' ''minClickRate'' (JNum (3 / 4))
       (with_threshold ''lowClickRate'' ''minPageViews'' (JNum 3) new_rules)"

text \<open>
  Six sessions view a page; five of them click the call to action and the sixth clicks
  an element that has an empty selector. Thresholds: two page views and the click rate
  \<^verbatim>\<open>0.8333333333333334\<close>, the double nearest to five sixths.
\<close>

definition five_of_six_db :: "event list" where
  "five_of_six_db =
     [scroll ''session-0'' ''/landing-page'' 40 0,
      scroll ''session-1'' ''/landing-page'' 55 60000,
      scroll ''session-2'' ''/landing-page'' 90 120000,
      scroll ''session-3'' ''/landing-page'' 35 180000,
      scroll ''session-4'' ''/landing-page'' 70 240000,
      scroll ''session-5'' ''/landing-page'' 15 300000,
      click ''session-0'' ''/landing-page'' ''button.cta-primary'' 30000,
      click ''session-1'' ''/landing-page'' ''button.cta-primary'' 90000,
      click ''session-2'' ''/landing-page'' ''button.cta-primary'' 150000,
      click ''session-3'' ''/landing-page'' ''button.cta-primary'' 210000,
      click ''session-4'' ''/landing-page'' ''button.cta-primary'' 270000,
      click ''session-5'' ''/landing-page'' [] 330000]"

definition five_sixths_rules :: rules where
  "five_sixths_rules =
     with_threshold ''lowClickRate'' ''minClickRate'' (JNum (double_of (5 / 6)))
       (with_threshold ''lowClickRate'' ''minPageViews'' (JNum 2) new_rules)"

text \<open>Three clicks on a button; the dead click threshold set to zero.\<close>

definition button_db :: "event list" where
  "button_db =
     [click ''session-dead-0'' ''/product-page'' ''button.buy'' 0,
      click ''session-dead-1'' ''/product-page'' ''button.buy'' 180000,
      click ''session-dead-2'' ''/product-page'' ''button.buy'' 360000]"

definition zero_clicks_rules :: rules where
  "zero_clicks_rules =
     with_threshold ''deadClicks'' ''minClicksOnNonInteractive'' (JNum 0) new_rules"

text \<open>A negative \<^verbatim>\<open>maxInteractionTime\<close>.\<close>

definition impatient_rules :: rules where
  "impatient_rules =
     with_threshold ''highExitRate'' ''maxInteractionTime'' (JNum (- 1)) new_rules"



section \<open>What the detectors are to compute\<close>

text \<open>The (page, selector) pairs of the issues a detector returned, in order.\<close>

definition flagged_pairs :: "(failure + issue list) option \<Rightarrow> (string \<times> string option) list" where
  "flagged_pairs res =
     (case res of
        Some (Inr issues) \<Rightarrow> map (\<lambda>i. (pageUrl i, elementSelector i)) issues
      | _ \<Rightarrow> [])"

text \<open>The value of one metric in each of the issues a detector returned, by page.\<close>

definition reported ::
  "string \<Rightarrow> (failure + issue list) option \<Rightarrow> (string \<times> rat option) list" where
  "reported k res =
     (case res of
        Some (Inr issues) \<Rightarrow> map (\<lambda>i. (pageUrl i, map_of (metrics i) k)) issues
      | _ \<Rightarrow> [])"

text \<open>A threshold of a configuration.\<close>

definition threshold_of :: "rules \<Rightarrow> string \<Rightarrow> string \<Rightarrow> jsval" where
  "threshold_of rs rid key = (case js_get rs rid of Own r \<Rightarrow> threshold r key | _ \<Rightarrow> JUndefined)"

subsection \<open>Rage clicks, in the words of the specification\<close>

text \<open>
  The number of clicks of the same session on the same selector whose timestamp lies
  in the window that starts at the click's own timestamp, bounds included, the click
  itself counted.
\<close>

definition clicks_in_window :: "rat \<Rightarrow> event list \<Rightarrow> event \<Rightarrow> nat" where
  "clicks_in_window timeWindow events e =
     length (filter (\<lambda>e'. event_type e' = ''click''
                       \<and> session_id e' = session_id e
                       \<and> element_selector e' = element_selector e
                       \<and> of_int (timestamp e) \<le> (of_int (timestamp e') :: rat)
                       \<and> of_int (timestamp e') \<le> of_int (timestamp e) + timeWindow) events)"

definition qualifying_click :: "rat \<Rightarrow> rat \<Rightarrow> event list \<Rightarrow> event \<Rightarrow> bool" where
  "qualifying_click timeWindow clicksInWindow events e =
     (event_type e = ''click'' \<and> element_selector e \<noteq> None
      \<and> clicksInWindow \<le> of_nat (clicks_in_window timeWindow events e))"

definition rage_sessions :: "rat \<Rightarrow> rat \<Rightarrow> event list \<Rightarrow> string \<Rightarrow> string \<Rightarrow> string set" where
  "rage_sessions timeWindow clicksInWindow events page sel =
     session_id ` {e \<in> set events. page_url e = page \<and> element_selector e = Some sel
                      \<and> qualifying_click timeWindow clicksInWindow events e}"

definition rage_clicks_flagged ::
  "rat \<Rightarrow> rat \<Rightarrow> rat \<Rightarrow> event list \<Rightarrow> string \<Rightarrow> string \<Rightarrow> bool" where
  "rage_clicks_flagged timeWindow clicksInWindow minOccurrences events page sel =
     (rage_sessions timeWindow clicksInWindow events page sel \<noteq> {}
      \<and> minOccurrences \<le> of_nat (card (rage_sessions timeWindow clicksInWindow events page sel)))"

subsection \<open>Sessions of a page\<close>

text \<open>The distinct sessions with at least one event (of any type) on the page.\<close>

definition page_sessions :: "event list \<Rightarrow> string \<Rightarrow> string set" where
  "page_sessions events page = session_id ` {e \<in> set events. page_url e = page}"

subsection \<open>High exit rate\<close>

text \<open>
  The duration of a session on a page: latest minus earliest timestamp over all its
  events there, clicks and scrolls alike.
\<close>

definition session_duration :: "event list \<Rightarrow> string \<Rightarrow> string \<Rightarrow> int" where
  "session_duration events page session =
     Max (timestamp ` {e \<in> set events. page_url e = page \<and> session_id e = session})
     - Min (timestamp ` {e \<in> set events. page_url e = page \<and> session_id e = session})"

definition quick_exit_sessions :: "rat \<Rightarrow> event list \<Rightarrow> string \<Rightarrow> string set" where
  "quick_exit_sessions maxInteractionTime events page =
     {s \<in> page_sessions events page.
        of_int (session_duration events page s) \<le> maxInteractionTime}"

text \<open>The share of quick exits among the sessions of the page, as a double.\<close>

definition exitRate :: "rat \<Rightarrow> event list \<Rightarrow> string \<Rightarrow> rat" where
  "exitRate maxInteractionTime events page =
     double_of (of_nat (card (quick_exit_sessions maxInteractionTime events page))
                / of_nat (card (page_sessions events page)))"

text \<open>A page of the store is flagged; a page without events has no sessions to divide by.\<close>

definition high_exit_rate_flagged :: "rat \<Rightarrow> rat \<Rightarrow> event list \<Rightarrow> string \<Rightarrow> bool" where
  "high_exit_rate_flagged maxInteractionTime minSessions events page =
     (page_sessions events page \<noteq> {}
      \<and> minSessions \<le> of_nat (card (page_sessions events page))
      \<and> exitRate maxInteractionTime events page > 1 / 2)"

text \<open>
  In the words of the specification: a session with a single event on the page counts
  as a quick exit, and the exit rate is the quotient itself.
\<close>

definition quick_exit_sessions_as_claimed :: "rat \<Rightarrow> event list \<Rightarrow> string \<Rightarrow> string set" where
  "quick_exit_sessions_as_claimed maxInteractionTime events page =
     {s \<in> page_sessions events page.
        length (filter (\<lambda>e. page_url e = page \<and> session_id e = s) events) = 1
        \<or> of_int (session_duration events page s) \<le> maxInteractionTime}"

definition exitRate_as_claimed :: "rat \<Rightarrow> event list \<Rightarrow> string \<Rightarrow> rat" where
  "exitRate_as_claimed maxInteractionTime events page =
     of_nat (card (quick_exit_sessions_as_claimed maxInteractionTime events page))
     / of_nat (card (page_sessions events page))"

definition high_exit_rate_flagged_as_claimed ::
  "rat \<Rightarrow> rat \<Rightarrow> event list \<Rightarrow> string \<Rightarrow> bool" where
  "high_exit_rate_flagged_as_claimed maxInteractionTime minSessions events page =
     (minSessions \<le> of_nat (card (page_sessions events page))
      \<and> exitRate_as_claimed maxInteractionTime events page > 1 / 2)"

text \<open>The keys of \<^verbatim>\<open>GROUP BY page_url, session_id\<close>.\<close>

definition session_keys :: "event list \<Rightarrow> (string \<times> string) list" where
  "session_keys events = remdups (map (\<lambda>e. (page_url e, session_id e)) events)"

subsection \<open>Clicks on a selector\<close>

text \<open>The click events on a (page, selector) pair, and the distinct sessions among them.\<close>

definition click_count :: "event list \<Rightarrow> string \<Rightarrow> string \<Rightarrow> nat" where
  "click_count events page sel =
     length (filter (\<lambda>e. event_type e = ''click'' \<and> element_selector e = Some sel
                       \<and> page_url e = page) events)"

definition clicking_sessions :: "event list \<Rightarrow> string \<Rightarrow> string \<Rightarrow> string set" where
  "clicking_sessions events page sel =
     session_id ` {e \<in> set events. event_type e = ''click'' \<and> element_selector e = Some sel
                      \<and> page_url e = page}"

subsection \<open>Low click rate\<close>

text \<open>
  In the words of the specification: the page has enough sessions and the quotient of
  the two session counts is below the threshold.
\<close>

definition low_click_rate_flagged_as_claimed ::
  "rat \<Rightarrow> rat \<Rightarrow> event list \<Rightarrow> string \<Rightarrow> string \<Rightarrow> bool" where
  "low_click_rate_flagged_as_claimed minPageViews minClickRate events page sel =
     (minPageViews \<le> of_nat (card (page_sessions events page))
      \<and> of_nat (card (clicking_sessions events page sel))
          / of_nat (card (page_sessions events page)) < minClickRate)"

text \<open>As amended: the quotient is rounded to a double.\<close>

definition clickRate :: "event list \<Rightarrow> string \<Rightarrow> string \<Rightarrow> rat" where
  "clickRate events page sel =
     double_of (of_nat (card (clicking_sessions events page sel))
                / of_nat (card (page_sessions events page)))"

text \<open>
  As amended: the pairs in question are those of the store, a non-empty selector that
  some session clicked on the page.
\<close>

definition low_click_rate_flagged ::
  "rat \<Rightarrow> rat \<Rightarrow> event list \<Rightarrow> string \<Rightarrow> string \<Rightarrow> bool" where
  "low_click_rate_flagged minPageViews minClickRate events page sel =
     (sel \<noteq> [] \<and> clicking_sessions events page sel \<noteq> {}
      \<and> minPageViews \<le> of_nat (card (page_sessions events page))
      \<and> clickRate events page sel < minClickRate)"

text \<open>
  The join of the low click rate query pairs every event with the session count of its
  page; the \<^verbatim>\<open>WHERE\<close> clause keeps the clicks with a non-empty selector.
\<close>

definition with_page_sessions :: "event list \<Rightarrow> event \<Rightarrow> event \<times> nat" where
  "with_page_sessions events e = (e, card (page_sessions events (page_url e)))"

definition counted_click :: "event \<Rightarrow> bool" where
  "counted_click e = (event_type e = ''click'' \<and> element_selector e \<noteq> None
                       \<and> element_selector e \<noteq> Some [])"

subsection \<open>Dead clicks\<close>

definition non_interactive_whitelist :: "string list" where
  "non_interactive_whitelist =
     [''div'', ''span'', ''p'', ''h1'', ''h2'', ''h3'', ''h4'', ''h5'', ''h6'']"

text \<open>
  In the words of the specification: a whitelist word is a prefix, case respected, and
  the number of the pair's clicks with such a selector reaches the threshold.
\<close>

definition tag_prefix_cs :: "string \<Rightarrow> string \<Rightarrow> bool" where
  "tag_prefix_cs w s = (take (length w) s = w)"

definition non_interactive_cs :: "string \<Rightarrow> bool" where
  "non_interactive_cs s = list_ex (\<lambda>w. tag_prefix_cs w s) non_interactive_whitelist"

definition dead_clicks_flagged_as_claimed ::
  "rat \<Rightarrow> event list \<Rightarrow> string \<Rightarrow> string \<Rightarrow> bool" where
  "dead_clicks_flagged_as_claimed minClicksOnNonInteractive events page sel =
     (let matching = length (filter (\<lambda>e. event_type e = ''click''
                                       \<and> element_selector e = Some sel \<and> page_url e = page
                                       \<and> non_interactive_cs sel) events)
      in minClicksOnNonInteractive \<le> of_nat matching)"

text \<open>
  As amended: a whitelist word is a prefix up to the case of ASCII letters, and the pair
  has at least one click with such a selector.
\<close>

definition tag_prefix_ci :: "string \<Rightarrow> string \<Rightarrow> bool" where
  "tag_prefix_ci w s = (map lower (take (length w) s) = map lower w)"

definition non_interactive_ci :: "string \<Rightarrow> bool" where
  "non_interactive_ci s = list_ex (\<lambda>w. tag_prefix_ci w s) non_interactive_whitelist"

definition dead_clicks_flagged :: "rat \<Rightarrow> event list \<Rightarrow> string \<Rightarrow> string \<Rightarrow> bool" where
  "dead_clicks_flagged minClicksOnNonInteractive events page sel =
     (let matching = length (filter (\<lambda>e. event_type e = ''click''
                                       \<and> element_selector e = Some sel \<and> page_url e = page
                                       \<and> non_interactive_ci sel) events)
      in 0 < matching \<and> minClicksOnNonInteractive \<le> of_nat matching)"

subsection \<open>What two analyses are compared on\<close>

text \<open>
  The rule, the locus and the metrics of an issue; identifier, description and time
  stamp are left out.
\<close>

definition flagged_view :: "issue \<Rightarrow> string \<times> string \<times> string option \<times> (string \<times> rat) list" where
  "flagged_view i = (ruleId i, pageUrl i, elementSelector i, metrics i)"

text \<open>
  The whole issue except its identifier and its time stamp: rule, name, severity, locus,
  description, metrics and suggestions.
\<close>

definition stable_part :: "issue \<Rightarrow> issue" where
  "stable_part i = i\<lparr>issueId := [], detectedAt := None\<rparr>"

section \<open>Properties of the metrics aggregation\<close>

lemma run_callbacks_Cons:
  "run_callbacks reads (k # ks) st = run_callbacks reads ks (metrics_callback k (reads k) st)"
  by (simp add: run_callbacks_def)

lemma run_callbacks_rejected:
  "settled st = Rejected e \<Longrightarrow> settled (run_callbacks reads ks st) = Rejected e"
proof (induction ks arbitrary: st)
  case Nil
  then show ?case by (simp add: run_callbacks_def)
next
  case (Cons k ks)
  have "settled (metrics_callback k (reads k) st) = Rejected e"
    using Cons.prems
    by (cases "reads k") (simp_all add: metrics_callback_def reject_def resolve_def Let_def)
  then show ?case
    by (simp add: run_callbacks_Cons Cons.IH)
qed

lemma run_callbacks_failure:
  assumes "settled st = Pending"
    and "completed st + length (filter (\<lambda>k. \<not> isl (reads k)) ks) < length query_keys"
    and "\<exists>k \<in> set ks. isl (reads k)"
  shows "\<exists>e. settled (run_callbacks reads ks st) = Rejected e"
  using assms
proof (induction ks arbitrary: st)
  case Nil
  then show ?case by simp
next
  case (Cons k ks)
  show ?case
  proof (cases "reads k")
    case (Inl err)
    then have "settled (metrics_callback k (reads k) st) = Rejected err"
      using Cons.prems(1) by (simp add: metrics_callback_def reject_def)
    then show ?thesis
      using run_callbacks_rejected by (fastforce simp: run_callbacks_Cons)
  next
    case (Inr rows)
    let ?st' = "metrics_callback k (reads k) st"
    from Inr Cons.prems(2) have lt: "completed st + 1 < length query_keys"
      by simp
    have p: "settled ?st' = Pending" and c: "completed ?st' = completed st + 1"
      using Inr Cons.prems(1) lt by (simp_all add: metrics_callback_def Let_def)
    have "completed ?st' + length (filter (\<lambda>k. \<not> isl (reads k)) ks) < length query_keys"
      using Inr Cons.prems(2) c by simp
    moreover have "\<exists>k \<in> set ks. isl (reads k)"
      using Inr Cons.prems(3) by auto
    ultimately show ?thesis
      using Cons.IH [OF p] by (simp add: run_callbacks_Cons)
  qed
qed

lemma failing_read_bounds_successes:
  assumes "k \<in> set ks" and "isl (reads k)"
  shows "length (filter (\<lambda>k. \<not> isl (reads k)) ks) < length ks"
  using assms by (intro length_filter_less [of k]) simp_all

text \<open>
  Claim C8. When the five callbacks have all arrived (in any order) and at least one of
  the reads failed, the promise of \<^verbatim>\<open>getAggregatedMetrics\<close> is rejected: it is not
  fulfilled with any snapshot, partial or complete.
\<close>

theorem getAggregatedMetrics_no_partial_snapshot:
  assumes "mset order = mset query_keys"
    and "k \<in> set query_keys" and "reads k = Inl err"
  shows "(\<exists>e. getAggregatedMetrics reads order = Rejected e) \<and>
         (\<forall>snapshot. getAggregatedMetrics reads order \<noteq> Fulfilled snapshot)"
proof -
  have len: "length order = length query_keys"
    using assms(1) by (metis size_mset)
  have mem: "k \<in> set order"
    using assms(1,2) by (metis set_mset_mset)
  have "length (filter (\<lambda>k. \<not> isl (reads k)) order) < length query_keys"
    using failing_read_bounds_successes [OF mem, of reads] assms(3) len by simp
  moreover have "\<exists>k \<in> set order. isl (reads k)"
  proof (rule bexI [of _ k])
    show "isl (reads k)" by (simp add: assms(3))
  qed (rule mem)
  ultimately have "\<exists>e. getAggregatedMetrics reads order = Rejected e"
    unfolding getAggregatedMetrics_def
    using run_callbacks_failure
      [of "\<lparr>results = [], completed = 0, settled = Pending\<rparr>" reads order]
    by simp
  then show ?thesis by auto
qed

theorem getAggregatedMetrics_no_partial_snapshot_witness:
  "getAggregatedMetrics
     (\<lambda>k. if k = ''averageScrollDepth'' then Inl ''SQLITE_IOERR'' else Inr [1::nat])
     [''recentActivity'', ''totalEvents'', ''averageScrollDepth'', ''totalSessions'',
      ''topClickedElements'']
   = Rejected ''SQLITE_IOERR''"
proof -
  let ?reads = "\<lambda>k. if k = ''averageScrollDepth'' then Inl ''SQLITE_IOERR'' else Inr [1::nat]"
  let ?order = "[''recentActivity'', ''totalEvents'', ''averageScrollDepth'', ''totalSessions'',
      ''topClickedElements'']"
  have a: "mset ?order = mset query_keys"
    by (simp add: query_keys_def)
  have b: "''averageScrollDepth'' \<in> set query_keys"
    by (simp add: query_keys_def)
  have c: "?reads ''averageScrollDepth'' = Inl ''SQLITE_IOERR''"
    by simp
  from getAggregatedMetrics_no_partial_snapshot
    [of ?order "''averageScrollDepth''" ?reads "''SQLITE_IOERR''", OF a b c]
  obtain e where e: "getAggregatedMetrics ?reads ?order = Rejected e"
    by blast
  have "getAggregatedMetrics ?reads ?order = Rejected ''SQLITE_IOERR''"
    by (simp add: getAggregatedMetrics_def run_callbacks_def metrics_callback_def
        reject_def resolve_def put_def query_keys_def Let_def)
  with e show ?thesis by simp
qed

section \<open>Properties of the rules engine\<close>

lemma for_each_Inr:
  "for_each f xs = Inr ys \<Longrightarrow> list_all2 (\<lambda>x y. f x = Inr y) xs ys"
proof (induction xs arbitrary: ys)
  case Nil
  then show ?case by simp
next
  case (Cons x xs)
  then show ?case
    by (auto split: sum.splits)
qed

lemma promise_all_Inr:
  "promise_all ps = Inr vs \<Longrightarrow> ps = map Inr vs"
proof (induction ps arbitrary: vs)
  case Nil
  then show ?case by simp
next
  case (Cons p ps)
  then show ?case
    by (auto split: sum.splits)
qed

lemma respond_ruleId:
  assumes "respond io rows mk = Inr is" and "\<And>x. ruleId (mk x) = rid" and "i \<in> set is"
  shows "ruleId i = rid"
  using assms by (auto simp: respond_def db_all_def split: option.splits)

lemma lowClickRate_issue_ruleId: "ruleId (lowClickRate_issue r env x) = ''lowClickRate''"
  by (simp add: lowClickRate_issue_def split: prod.splits)

lemma analyzeLowClickRate_ruleId:
  assumes "analyzeLowClickRate rs env io events = Some (Inr is)" and "i \<in> set is"
  shows "ruleId i = ''lowClickRate''"
proof -
  from assms(1) obtain r rows where
    "respond io rows (lowClickRate_issue r env) = Inr is"
    unfolding analyzeLowClickRate_def
    by (auto split: property.splits option.splits)
  then show ?thesis
    using respond_ruleId lowClickRate_issue_ruleId assms(2) by blast
qed


lemma lowScrollDepth_issue_ruleId: "ruleId (lowScrollDepth_issue r env x) = ''lowScrollDepth''"
  by (simp add: lowScrollDepth_issue_def split: prod.splits)

lemma analyzeLowScrollDepth_ruleId:
  assumes "analyzeLowScrollDepth rs env io events = Some (Inr is)" and "i \<in> set is"
  shows "ruleId i = ''lowScrollDepth''"
proof -
  from assms(1) obtain r rows where
    "respond io rows (lowScrollDepth_issue r env) = Inr is"
    unfolding analyzeLowScrollDepth_def
    by (auto split: property.splits option.splits if_splits)
  then show ?thesis
    using respond_ruleId lowScrollDepth_issue_ruleId assms(2) by blast
qed

lemma rageClicks_issue_ruleId: "ruleId (rageClicks_issue r env x) = ''rageClicks''"
  by (simp add: rageClicks_issue_def split: prod.splits)

lemma analyzeRageClicks_ruleId:
  assumes "analyzeRageClicks rs env io events = Some (Inr is)" and "i \<in> set is"
  shows "ruleId i = ''rageClicks''"
proof -
  from assms(1) obtain r rows where
    "respond io rows (rageClicks_issue r env) = Inr is"
    unfolding analyzeRageClicks_def
    by (auto split: property.splits option.splits)
  then show ?thesis
    using respond_ruleId rageClicks_issue_ruleId assms(2) by blast
qed

lemma deadClicks_issue_ruleId: "ruleId (deadClicks_issue r env x) = ''deadClicks''"
  by (simp add: deadClicks_issue_def split: prod.splits)

lemma analyzeDeadClicks_ruleId:
  assumes "analyzeDeadClicks rs env io events = Some (Inr is)" and "i \<in> set is"
  shows "ruleId i = ''deadClicks''"
proof -
  from assms(1) obtain r rows where
    "respond io rows (deadClicks_issue r env) = Inr is"
    unfolding analyzeDeadClicks_def
    by (auto split: property.splits option.splits if_splits)
  then show ?thesis
    using respond_ruleId deadClicks_issue_ruleId assms(2) by blast
qed

lemma highExitRate_issue_ruleId: "ruleId (highExitRate_issue r env x) = ''highExitRate''"
  by (simp add: highExitRate_issue_def split: prod.splits)

lemma analyzeHighExitRate_ruleId:
  assumes "analyzeHighExitRate rs env io events = Some (Inr is)" and "i \<in> set is"
  shows "ruleId i = ''highExitRate''"
proof -
  from assms(1) obtain r rows where
    "respond io rows (highExitRate_issue r env) = Inr is"
    unfolding analyzeHighExitRate_def
    by (auto split: property.splits option.splits)
  then show ?thesis
    using respond_ruleId highExitRate_issue_ruleId assms(2) by blast
qed

lemma map_Inr_five:
  assumes "[a, b, c, d, e] = map Inr found"
  shows "\<exists>a' b' c' d' e'. found = [a', b', c', d', e'] \<and> a = Inr a' \<and> b = Inr b'
            \<and> c = Inr c' \<and> d = Inr d' \<and> e = Inr e'"
  using assms by (auto simp: Cons_eq_map_conv)

lemma analyzeAllRules_Some:
  assumes "analyzeAllRules eng env io events = Some res"
  shows "\<exists>a b c d e.
           analyzeLowClickRate (rules eng) env (io ''lowClickRate'') events = Some a
         \<and> analyzeLowScrollDepth (rules eng) env (io ''lowScrollDepth'') events = Some b
         \<and> analyzeRageClicks (rules eng) env (io ''rageClicks'') events = Some c
         \<and> analyzeDeadClicks (rules eng) env (io ''deadClicks'') events = Some d
         \<and> analyzeHighExitRate (rules eng) env (io ''highExitRate'') events = Some e
         \<and> res = (case promise_all [a, b, c, d, e] of
                    Inl f \<Rightarrow> Inl f
                  | Inr found \<Rightarrow>
                      (case for_each (attach_suggestions (suggestionCatalog eng) env)
                              (enumerate 0 (concat found)) of
                         Inl e \<Rightarrow> Inl (JsFailure e)
                       | Inr issues \<Rightarrow> Inr issues))"
proof -
  let ?A = "analyzeLowClickRate (rules eng) env (io ''lowClickRate'') events"
  let ?B = "analyzeLowScrollDepth (rules eng) env (io ''lowScrollDepth'') events"
  let ?C = "analyzeRageClicks (rules eng) env (io ''rageClicks'') events"
  let ?D = "analyzeDeadClicks (rules eng) env (io ''deadClicks'') events"
  let ?E = "analyzeHighExitRate (rules eng) env (io ''highExitRate'') events"
  show ?thesis
    using assms unfolding analyzeAllRules_def
    by (cases ?A; cases ?B; cases ?C; cases ?D; cases ?E) simp_all
qed

lemma for_each_member:
  assumes "for_each f xs = Inr ys" and "y \<in> set ys"
  shows "\<exists>x \<in> set xs. f x = Inr y"
  using assms
proof (induction xs arbitrary: ys)
  case Nil
  then show ?case by simp
next
  case (Cons x xs)
  then show ?case
    by (auto split: sum.splits)
qed

lemma analyzeAllRules_issue:
  assumes "analyzeAllRules eng env io events = Some (Inr issues)" and "i \<in> set issues"
  shows "\<exists>n i0 s. ruleId i0 \<in> set rule_ids
            \<and> getSuggestionsForRule (suggestionCatalog eng) (ruleId i0) = Inr s
            \<and> i = i0\<lparr>suggestions := Some s, detectedAt := Some (toISOString env n)\<rparr>"
proof -
  from analyzeAllRules_Some [OF assms(1)] obtain a b c d e where
    parts: "analyzeLowClickRate (rules eng) env (io ''lowClickRate'') events = Some a"
      "analyzeLowScrollDepth (rules eng) env (io ''lowScrollDepth'') events = Some b"
      "analyzeRageClicks (rules eng) env (io ''rageClicks'') events = Some c"
      "analyzeDeadClicks (rules eng) env (io ''deadClicks'') events = Some d"
      "analyzeHighExitRate (rules eng) env (io ''highExitRate'') events = Some e"
    and res: "Inr issues = (case promise_all [a, b, c, d, e] of
                    Inl f \<Rightarrow> Inl f
                  | Inr found \<Rightarrow>
                      (case for_each (attach_suggestions (suggestionCatalog eng) env)
                              (enumerate 0 (concat found)) of
                         Inl e \<Rightarrow> Inl (JsFailure e)
                       | Inr issues \<Rightarrow> Inr issues))"
    by blast
  from res obtain found where all: "promise_all [a, b, c, d, e] = Inr found"
    and each: "for_each (attach_suggestions (suggestionCatalog eng) env)
                 (enumerate 0 (concat found)) = Inr issues"
    by (cases "promise_all [a, b, c, d, e]"; simp split: sum.splits)
  from map_Inr_five [OF promise_all_Inr [OF all]] obtain a' b' c' d' e' where
    found: "found = [a', b', c', d', e']"
    and inr: "a = Inr a'" "b = Inr b'" "c = Inr c'" "d = Inr d'" "e = Inr e'"
    by blast
  from for_each_member [OF each assms(2)] obtain x where
    x: "x \<in> set (enumerate 0 (concat found))"
    and fx: "attach_suggestions (suggestionCatalog eng) env x = Inr i"
    by blast
  from x have "snd x \<in> set (map snd (enumerate 0 (concat found)))"
    by (simp del: map_snd_enumerate)
  then have "snd x \<in> set (concat found)"
    by simp
  then have "snd x \<in> set a' \<union> set b' \<union> set c' \<union> set d' \<union> set e'"
    unfolding found by simp
  then consider "snd x \<in> set a'" | "snd x \<in> set b'" | "snd x \<in> set c'"
    | "snd x \<in> set d'" | "snd x \<in> set e'"
    by blast
  then have rid: "ruleId (snd x) \<in> set rule_ids"
  proof cases
    case 1
    then show ?thesis
      using analyzeLowClickRate_ruleId parts(1) inr(1) by (simp add: rule_ids_def)
  next
    case 2
    then show ?thesis
      using analyzeLowScrollDepth_ruleId parts(2) inr(2) by (simp add: rule_ids_def)
  next
    case 3
    then show ?thesis
      using analyzeRageClicks_ruleId parts(3) inr(3) by (simp add: rule_ids_def)
  next
    case 4
    then show ?thesis
      using analyzeDeadClicks_ruleId parts(4) inr(4) by (simp add: rule_ids_def)
  next
    case 5
    then show ?thesis
      using analyzeHighExitRate_ruleId parts(5) inr(5) by (simp add: rule_ids_def)
  qed
  from fx obtain s where
    "getSuggestionsForRule (suggestionCatalog eng) (ruleId (snd x)) = Inr s"
    "i = (snd x)\<lparr>suggestions := Some s, detectedAt := Some (toISOString env (fst x))\<rparr>"
    unfolding attach_suggestions_def by (auto split: sum.splits)
  with rid show ?thesis by blast
qed

lemma enumerate_fst_map:
  "map (\<lambda>it. f (fst it)) (enumerate n xs) = map f [n..<n + length xs]"
proof (induction xs arbitrary: n)
  case Nil
  then show ?case by simp
next
  case (Cons x xs)
  have "[n..<n + length (x # xs)] = n # [Suc n..<Suc n + length xs]"
    by (simp add: upt_rec)
  then show ?case
    using Cons.IH [of "Suc n"] by simp
qed

lemma priorities_by_position:
  assumes "length xs \<le> 3"
  shows "map (\<lambda>it. priority_of_index (fst it)) (enumerate 0 xs)
           = take (length xs) [''high'', ''medium'', ''low'']"
proof -
  have upto: "[0..<1] = [0::nat]" "[0..<2] = [0, 1::nat]" "[0..<3] = [0, 1, 2::nat]"
    by (simp_all add: upt_rec)
  from assms consider "length xs = 0" | "length xs = 1" | "length xs = 2" | "length xs = 3"
    by linarith
  then show ?thesis
    unfolding enumerate_fst_map
    by cases (simp_all add: upto priority_of_index_def)
qed

lemma getSuggestionsForRule_Inr:
  assumes "getSuggestionsForRule cat rid = Inr s"
  shows "s = map (make_suggestion rid) (enumerate 0 (take 3 (catalog_texts cat rid)))"
proof (cases "map_of cat rid")
  case None
  then show ?thesis
    using assms unfolding getSuggestionsForRule_def js_get_def catalog_texts_def
    by (simp split: if_splits)
next
  case (Some texts)
  then show ?thesis
    using assms unfolding getSuggestionsForRule_def js_get_def catalog_texts_def
    by simp
qed

lemma suggestions_shape:
  assumes "s = map (make_suggestion rid) (enumerate 0 (take 3 texts))"
  shows "map suggestionText s = take 3 texts"
    and "map priority s = take (length s) [''high'', ''medium'', ''low'']"
    and "length s \<le> 3"
proof -
  have "map suggestionText s = map snd (enumerate 0 (take 3 texts))"
    unfolding assms by (simp add: make_suggestion_def del: map_snd_enumerate)
  then show "map suggestionText s = take 3 texts" by simp
  show len: "length s \<le> 3" unfolding assms by simp
  have "map priority s = map (\<lambda>it. priority_of_index (fst it)) (enumerate 0 (take 3 texts))"
    unfolding assms by (simp add: make_suggestion_def)
  also have "\<dots> = take (length (take 3 texts)) [''high'', ''medium'', ''low'']"
    by (rule priorities_by_position) simp
  finally show "map priority s = take (length s) [''high'', ''medium'', ''low'']"
    unfolding assms by simp
qed

lemma rule_ids_cases:
  assumes "rid \<in> set rule_ids"
  shows "rid = ''lowClickRate'' \<or> rid = ''lowScrollDepth'' \<or> rid = ''rageClicks''
           \<or> rid = ''deadClicks'' \<or> rid = ''highExitRate''"
  using assms unfolding rule_ids_def by simp

lemma static_catalog_entries:
  assumes "rid \<in> set rule_ids"
  shows "length (catalog_texts suggestions_catalog rid) = 5"
  using rule_ids_cases [OF assms]
  by (elim disjE) (simp_all add: catalog_texts_def suggestions_catalog_def)

text \<open>
  Claim C9. Every issue that \<^verbatim>\<open>analyzeAllRules\<close> returns carries the first three texts of
  the catalog entry of its rule, in catalog order, with priorities high, medium, low by
  position, and never more than three, whatever the catalog holds; with the engine's own
  catalog there are exactly three.
\<close>

theorem analyzeAllRules_suggestions:
  assumes "analyzeAllRules eng env io events = Some (Inr issues)" and "i \<in> set issues"
  shows "\<exists>s. suggestions i = Some s
           \<and> map suggestionText s = take 3 (catalog_texts (suggestionCatalog eng) (ruleId i))
           \<and> map priority s = take (length s) [''high'', ''medium'', ''low'']
           \<and> length s \<le> 3
           \<and> (suggestionCatalog eng = suggestions_catalog \<longrightarrow>
                length s = 3 \<and> map priority s = [''high'', ''medium'', ''low''])"
proof -
  from analyzeAllRules_issue [OF assms] obtain n i0 s where
    rid: "ruleId i0 \<in> set rule_ids"
    and s: "getSuggestionsForRule (suggestionCatalog eng) (ruleId i0) = Inr s"
    and i: "i = i0\<lparr>suggestions := Some s, detectedAt := Some (toISOString env n)\<rparr>"
    by blast
  have same: "ruleId i = ruleId i0" and sugg: "suggestions i = Some s"
    unfolding i by simp_all
  note shape = suggestions_shape [OF getSuggestionsForRule_Inr [OF s]]
  have static: "length s = 3 \<and> map priority s = [''high'', ''medium'', ''low'']"
    if "suggestionCatalog eng = suggestions_catalog"
  proof -
    have "length (take 3 (catalog_texts (suggestionCatalog eng) (ruleId i0))) = 3"
      using static_catalog_entries [OF rid] that by simp
    then have len: "length s = 3"
      using shape(1) by (metis length_map)
    have "take (length s) [''high'', ''medium'', ''low''] = [''high'', ''medium'', ''low'']"
      unfolding len by simp
    with shape(2) len show ?thesis by (simp only:)
  qed
  show ?thesis
  proof (intro exI conjI impI)
    show "suggestions i = Some s" by (rule sugg)
    show "map suggestionText s = take 3 (catalog_texts (suggestionCatalog eng) (ruleId i))"
      unfolding same by (rule shape(1))
    show "map priority s = take (length s) [''high'', ''medium'', ''low'']"
      by (rule shape(2))
    show "length s \<le> 3" by (rule shape(3))
    show "length s = 3" if "suggestionCatalog eng = suggestions_catalog"
      using static [OF that] by (rule conjunct1)
    show "map priority s = [''high'', ''medium'', ''low'']"
      if "suggestionCatalog eng = suggestions_catalog"
      using static [OF that] by (rule conjunct2)
  qed
qed

theorem analyzeAllRules_suggestions_witness:
  "\<exists>issues i s. analyzeAllRules new_RulesEngine env0 (\<lambda>r. None) dead_db = Some (Inr issues)
      \<and> i \<in> set issues \<and> suggestions i = Some s
      \<and> map suggestionText s =
            take 3 (catalog_texts suggestions_catalog (ruleId i))
      \<and> length s = 3
      \<and> map priority s = [''high'', ''medium'', ''low'']"
proof -
  have "case analyzeAllRules new_RulesEngine env0 (\<lambda>r. None) dead_db of
          Some (Inr [i]) \<Rightarrow> True | _ \<Rightarrow> False"
    by code_simp
  then obtain i where
    run: "analyzeAllRules new_RulesEngine env0 (\<lambda>r. None) dead_db = Some (Inr [i])"
    by (simp split: option.splits sum.splits list.splits)
  have mem: "i \<in> set [i]" by simp
  have cat: "suggestionCatalog new_RulesEngine = suggestions_catalog"
    by (simp add: new_RulesEngine_def)
  from analyzeAllRules_suggestions [OF run mem] obtain s where
    s: "suggestions i = Some s
        \<and> map suggestionText s
            = take 3 (catalog_texts (suggestionCatalog new_RulesEngine) (ruleId i))
        \<and> map priority s = take (length s) [''high'', ''medium'', ''low'']
        \<and> length s \<le> 3
        \<and> (suggestionCatalog new_RulesEngine = suggestions_catalog \<longrightarrow>
              length s = 3 \<and> map priority s = [''high'', ''medium'', ''low''])"
    by (rule exE)
  show ?thesis
  proof (intro exI conjI)
    show "analyzeAllRules new_RulesEngine env0 (\<lambda>r. None) dead_db = Some (Inr [i])"
      by (rule run)
    show "i \<in> set [i]" by (rule mem)
    show "suggestions i = Some s" using s by (rule conjunct1)
    show "map suggestionText s = take 3 (catalog_texts suggestions_catalog (ruleId i))"
      using s cat by (simp only:)
    show "length s = 3" using s cat by (simp only:)
    show "map priority s = [''high'', ''medium'', ''low'']" using s cat by simp
  qed
qed

section \<open>Properties of the threshold setter\<close>

lemma map_of_overwrite:
  "map_of (map (\<lambda>(k', v'). if k' = k then (k', v) else (k', v')) obj) k'
     = (if k' = k then (if k \<in> fst ` set obj then Some v else None) else map_of obj k')"
  by (induction obj) (auto split: if_splits)

lemma map_of_put:
  "map_of (put k v obj) k' = (if k' = k then Some v else map_of obj k')"
proof (cases "k \<in> fst ` set obj")
  case True
  then show ?thesis
    unfolding put_def by (simp add: map_of_overwrite)
next
  case False
  then have "map_of obj k = None"
    by (simp add: map_of_eq_None_iff)
  with False show ?thesis
    unfolding put_def by (simp add: map_add_def map_of_append split: option.splits)
qed

lemma updateRuleThreshold_unknown_rule:
  assumes "js_get rs rid = Absent"
  shows "updateRuleThreshold rs rid key v = Some (Inr (False, rs))"
  using assms by (simp add: updateRuleThreshold_def)

lemma updateRuleThreshold_unknown_key:
  assumes "js_get rs rid = Own r" and "js_get (thresholds r) key = Absent"
  shows "updateRuleThreshold rs rid key v = Some (Inr (False, rs))"
  using assms by (simp add: updateRuleThreshold_def defined_property_def)

lemma updateRuleThreshold_known:
  assumes "js_get rs rid = Own r" and "js_get (thresholds r) key = Own old"
    and "old \<noteq> JUndefined"
  shows "\<exists>rs' r'. updateRuleThreshold rs rid key v = Some (Inr (True, rs'))
           \<and> js_get rs' rid = Own r' \<and> threshold r' key = v
           \<and> (\<forall>other. other \<noteq> rid \<longrightarrow> js_get rs' other = js_get rs other)"
proof -
  let ?r' = "r\<lparr>thresholds := put key v (thresholds r)\<rparr>"
  let ?rs' = "put rid ?r' rs"
  have "updateRuleThreshold rs rid key v = Some (Inr (True, ?rs'))"
    using assms by (simp add: updateRuleThreshold_def defined_property_def)
  moreover have "js_get ?rs' rid = Own ?r'"
    by (simp add: js_get_def map_of_put)
  moreover have "threshold ?r' key = v"
    by (simp add: threshold_def map_of_put)
  moreover have "\<forall>other. other \<noteq> rid \<longrightarrow> js_get ?rs' other = js_get rs other"
    by (simp add: js_get_def map_of_put)
  ultimately show ?thesis by blast
qed

text \<open>
  Claim C7, at the inputs where the code departs from it. A rule name that every object
  inherits (\<^verbatim>\<open>constructor\<close>) makes the call throw instead of returning false, and a
  threshold name that every object inherits (\<^verbatim>\<open>toString\<close>) is accepted as known: the
  call returns true and gives the rule a new threshold property of that name.
\<close>

theorem updateRuleThreshold_inherited_names:
  "updateRuleThreshold new_rules ''constructor'' ''minClickRate'' (JNum (1 / 10))
     = Some (Inl TypeError)
   \<and> map_option (map_sum id fst)
        (updateRuleThreshold new_rules ''lowClickRate'' ''toString'' (JNum 1))
     = Some (Inr True)
   \<and> map_option (map_sum id (\<lambda>res. map_of (snd res) ''lowClickRate'' = map_of new_rules ''lowClickRate''))
        (updateRuleThreshold new_rules ''lowClickRate'' ''toString'' (JNum 1))
     = Some (Inr False)"
  by code_simp

section \<open>Properties of the batch insert\<close>


section \<open>Properties of the rage click detector\<close>

text \<open>
  Claim C10. The window count of a click includes the clicks of the same session on the
  same selector on other pages. In \<open>two_page_db\<close> each session clicks \<^verbatim>\<open>#buy\<close> twice on
  \<^verbatim>\<open>/cart\<close> and once on \<^verbatim>\<open>/checkout\<close> within one second: the first click on \<^verbatim>\<open>/cart\<close>
  counts three clicks in its window, and the pair (\<^verbatim>\<open>/cart\<close>, \<^verbatim>\<open>#buy\<close>) is flagged with
  the default thresholds, while the events of either page alone flag nothing.
\<close>

theorem rageClicks_window_spans_pages:
  "rapid_sequences 2000 3 two_page_db
     = [(''session-a'', Some ''#buy'', ''/cart'', 1000, 3),
        (''session-b'', Some ''#buy'', ''/cart'', 301000, 3)]
   \<and> flagged_pairs (analyzeRageClicks new_rules env None two_page_db)
     = [(''/cart'', Some ''#buy'')]
   \<and> flagged_pairs (analyzeRageClicks new_rules env None
                      (filter (\<lambda>e. page_url e = ''/cart'') two_page_db)) = []
   \<and> flagged_pairs (analyzeRageClicks new_rules env None
                      (filter (\<lambda>e. page_url e = ''/checkout'') two_page_db)) = []"
  by code_simp

text \<open>
  Claim C2, at an input where the code departs from it. In \<open>double_click_db\<close> two
  sessions each have two clicks with equal timestamps on one selector. Every click has
  two clicks in its window, fewer than \<^verbatim>\<open>clicksInWindow = 3\<close>, so no click qualifies and
  the pair is not to be flagged. The query groups the joined rows by
  \<^verbatim>\<open>e1.timestamp\<close>, so the two clicks share one group of four joined rows, the count
  is 4, and the pair is flagged.
\<close>

theorem rageClicks_equal_timestamps:
  "map (clicks_in_window 2000 double_click_db) double_click_db = [2, 2, 2, 2]
   \<and> \<not> rage_clicks_flagged 2000 3 2 double_click_db ''/checkout'' ''button.submit-order''
   \<and> rapid_sequences 2000 3 double_click_db
     = [(''session-rage-0'', Some ''button.submit-order'', ''/checkout'', 1000000, 4),
        (''session-rage-1'', Some ''button.submit-order'', ''/checkout'', 1300000, 4)]
   \<and> flagged_pairs (analyzeRageClicks new_rules env None double_click_db)
     = [(''/checkout'', Some ''button.submit-order'')]"
  by code_simp

section \<open>Properties of the SQL building blocks\<close>

lemma group_by_iff:
  "(k, g) \<in> set (group_by key rows) \<longleftrightarrow> k \<in> key ` set rows \<and> g = filter (\<lambda>r. key r = k) rows"
  unfolding group_by_def by auto

lemma distinct_group_by: "distinct (map fst (group_by key rows))"
  unfolding group_by_def by (simp add: comp_def)

lemma count_distinct_card: "count_distinct xs = card (set xs)"
  unfolding count_distinct_def by (simp add: length_remdups_card_conv)

lemma distinct_filter_card:
  assumes "distinct xs"
  shows "length (filter P xs) = card {x \<in> set xs. P x}"
proof -
  have "distinct (filter P xs)" using assms by simp
  from distinct_card [OF this] show ?thesis by simp
qed

section \<open>Properties of the high exit rate detector\<close>

lemma session_durations_eq:
  "session_durations events
     = map (\<lambda>k. (fst k, snd k, session_duration events (fst k) (snd k))) (session_keys events)"
proof -
  have "timestamp ` set (filter (\<lambda>e. (page_url e, session_id e) = k) events)
          = timestamp ` {e \<in> set events. page_url e = fst k \<and> session_id e = snd k}" for k
    by (cases k) auto
  then show ?thesis
    unfolding session_durations_def group_by_def session_keys_def session_duration_def
    by (simp add: comp_def case_prod_beta)
qed

lemma keys_of_page:
  "{k \<in> set (session_keys events). fst k = page} = Pair page ` page_sessions events page"
  unfolding session_keys_def page_sessions_def by auto

lemma sessions_count:
  "length (filter (\<lambda>k. fst k = page) (session_keys events)) = card (page_sessions events page)"
proof -
  have "distinct (session_keys events)" by (simp add: session_keys_def)
  then have "length (filter (\<lambda>k. fst k = page) (session_keys events))
               = card {k \<in> set (session_keys events). fst k = page}"
    by (rule distinct_filter_card)
  also have "\<dots> = card (Pair page ` page_sessions events page)"
    by (simp only: keys_of_page)
  also have "\<dots> = card (page_sessions events page)"
    by (rule card_image) (simp add: inj_on_def)
  finally show ?thesis .
qed

lemma quick_keys_of_page:
  "{k \<in> set (session_keys events).
      fst k = page \<and> of_int (session_duration events (fst k) (snd k)) \<le> maxT}
     = Pair page ` quick_exit_sessions maxT events page"
  unfolding session_keys_def quick_exit_sessions_def page_sessions_def by auto

lemma quick_count:
  "length (filter (\<lambda>k. fst k = page \<and> of_int (session_duration events (fst k) (snd k)) \<le> maxT)
             (session_keys events))
     = card (quick_exit_sessions maxT events page)"
proof -
  have "distinct (session_keys events)" by (simp add: session_keys_def)
  then have "length (filter (\<lambda>k. fst k = page
                \<and> of_int (session_duration events (fst k) (snd k)) \<le> maxT) (session_keys events))
               = card {k \<in> set (session_keys events). fst k = page
                \<and> of_int (session_duration events (fst k) (snd k)) \<le> maxT}"
    by (rule distinct_filter_card)
  also have "\<dots> = card (Pair page ` quick_exit_sessions maxT events page)"
    by (simp only: quick_keys_of_page)
  also have "\<dots> = card (quick_exit_sessions maxT events page)"
    by (rule card_image) (simp add: inj_on_def)
  finally show ?thesis .
qed


lemma exit_group:
  assumes "g = filter (\<lambda>r. fst r = page) (session_durations events)"
  shows "length g = card (page_sessions events page)"
    and "length (filter (\<lambda>(p, s, d). of_int d \<le> maxT) g)
           = card (quick_exit_sessions maxT events page)"
proof -
  let ?F = "\<lambda>k. (fst k, snd k, session_duration events (fst k) (snd k))"
  have g: "g = map ?F (filter (\<lambda>k. fst k = page) (session_keys events))"
    unfolding assms session_durations_eq by (simp add: filter_map comp_def)
  show "length g = card (page_sessions events page)"
    unfolding g by (simp add: sessions_count)
  have "filter (\<lambda>(p, s, d). of_int d \<le> maxT) g
          = map ?F (filter (\<lambda>k. fst k = page
               \<and> of_int (session_duration events (fst k) (snd k)) \<le> maxT) (session_keys events))"
    unfolding g by (simp add: filter_map comp_def conj_commute)
  then show "length (filter (\<lambda>(p, s, d). of_int d \<le> maxT) g)
           = card (quick_exit_sessions maxT events page)"
    by (simp add: quick_count)
qed

lemma exit_pages:
  "page \<in> (\<lambda>(p, s, d). p) ` set (session_durations events) \<longleftrightarrow> page_sessions events page \<noteq> {}"
  unfolding session_durations_eq session_keys_def page_sessions_def
  by (auto simp: image_iff)

lemma highExitRate_query_set:
  "set (highExitRate_query maxT minS events)
     = {(page, length g, q, double_of (of_nat q / of_nat (length g))) | page g q.
          (page, g) \<in> set (group_by (\<lambda>(p, s, d). p) (session_durations events))
          \<and> q = length (filter (\<lambda>(p, s, d). of_int d \<le> maxT) g)
          \<and> minS \<le> of_nat (length g)
          \<and> (1 / 2 :: rat) < double_of (of_nat q / of_nat (length g))}"
  unfolding highExitRate_query_def Let_def by auto

lemma highExitRate_query_rows:
  "row \<in> set (highExitRate_query maxT minS events) \<longleftrightarrow>
     (\<exists>page. high_exit_rate_flagged maxT minS events page
        \<and> row = (page, card (page_sessions events page),
                  card (quick_exit_sessions maxT events page), exitRate maxT events page))"
  (is "?lhs \<longleftrightarrow> ?rhs")
proof
  assume ?lhs
  then obtain page g q where
    grp: "(page, g) \<in> set (group_by (\<lambda>(p, s, d). p) (session_durations events))"
    and q: "q = length (filter (\<lambda>(p, s, d). of_int d \<le> maxT) g)"
    and cond: "minS \<le> of_nat (length g)"
      "(1 / 2 :: rat) < double_of (of_nat q / of_nat (length g))"
    and row: "row = (page, length g, q, double_of (of_nat q / of_nat (length g)))"
    unfolding highExitRate_query_set by blast
  from grp have page: "page \<in> (\<lambda>(p, s, d). p) ` set (session_durations events)"
    and g: "g = filter (\<lambda>r. fst r = page) (session_durations events)"
    unfolding group_by_iff by (simp_all add: case_prod_beta)
  note cnt = exit_group(1) [OF g] exit_group(2) [OF g, of maxT]
  have "high_exit_rate_flagged maxT minS events page"
    unfolding high_exit_rate_flagged_def exitRate_def
    using page cond unfolding exit_pages q cnt by simp
  moreover have "row = (page, card (page_sessions events page),
                  card (quick_exit_sessions maxT events page), exitRate maxT events page)"
    unfolding row q cnt exitRate_def by simp
  ultimately show ?rhs by blast
next
  assume ?rhs
  then obtain page where
    fl: "high_exit_rate_flagged maxT minS events page"
    and row: "row = (page, card (page_sessions events page),
                  card (quick_exit_sessions maxT events page), exitRate maxT events page)"
    by blast
  define g where "g = filter (\<lambda>r. fst r = page) (session_durations events)"
  note cnt = exit_group(1) [OF g_def] exit_group(2) [OF g_def, of maxT]
  from fl have "page \<in> (\<lambda>(p, s, d). p) ` set (session_durations events)"
    unfolding exit_pages high_exit_rate_flagged_def by simp
  then have grp: "(page, g) \<in> set (group_by (\<lambda>(p, s, d). p) (session_durations events))"
    unfolding group_by_iff g_def by (simp add: case_prod_beta)
  show ?lhs
    unfolding highExitRate_query_set
    using grp fl unfolding row high_exit_rate_flagged_def exitRate_def cnt [symmetric]
    by blast
qed

lemma respond_ok: "respond None rows mk = Inr (map mk (enumerate 0 rows))"
  by (simp add: respond_def db_all_def)

lemma snd_set_enumerate: "snd ` set (enumerate n xs) = set xs"
proof -
  have "snd ` set (enumerate n xs) = set (map snd (enumerate n xs))"
    by (simp del: map_snd_enumerate)
  then show ?thesis by simp
qed

lemma analyzeHighExitRate_ok:
  assumes "js_get rs ''highExitRate'' = Own r"
    and "threshold r ''maxInteractionTime'' = JNum maxT"
    and "threshold r ''minSessions'' = JNum minS"
  shows "analyzeHighExitRate rs env None events
           = Some (Inr (map (highExitRate_issue r env)
                          (enumerate 0 (highExitRate_query maxT minS events))))"
  using assms by (simp add: analyzeHighExitRate_def num_def respond_ok)

lemma highExitRate_issue_fields:
  "pageUrl (highExitRate_issue r env (i, row)) = fst row"
  "elementSelector (highExitRate_issue r env (i, row)) = None"
  "metrics (highExitRate_issue r env (i, row))
     = [(''exitRate'', snd (snd (snd row))), (''sessions'', of_nat (fst (snd row))),
        (''quickExitSessions'', of_nat (fst (snd (snd row))))]"
  by (simp_all add: highExitRate_issue_def case_prod_beta)

lemma single_event_duration:
  assumes "length (filter (\<lambda>e. page_url e = page \<and> session_id e = s) events) = 1"
  shows "session_duration events page s = 0" and "s \<in> page_sessions events page"
proof -
  from assms obtain e where e: "filter (\<lambda>e. page_url e = page \<and> session_id e = s) events = [e]"
    by (auto simp: length_Suc_conv)
  then have "set (filter (\<lambda>e. page_url e = page \<and> session_id e = s) events) = {e}"
    by simp
  then have eq: "{e \<in> set events. page_url e = page \<and> session_id e = s} = {e}"
    by simp
  show "session_duration events page s = 0"
    unfolding session_duration_def eq by simp
  from eq have "e \<in> set events" "page_url e = page" "session_id e = s" by auto
  then show "s \<in> page_sessions events page"
    unfolding page_sessions_def by auto
qed

text \<open>
  Claim C5, as amended. With numeric thresholds and a successful read, the high exit
  rate detector flags exactly the pages of the store whose number of sessions is at
  least \<^verbatim>\<open>minSessions\<close> and whose exit rate exceeds one half, a bound that no threshold
  changes. The exit rate is the double nearest to the share of the page's sessions whose
  duration, latest minus earliest timestamp over all events of the session on the page,
  clicks and scrolls alike, is at most \<^verbatim>\<open>maxInteractionTime\<close>; the issue reports that
  double and the two session counts. A session with a single event on the page has
  duration 0, and it is a quick exit exactly when \<^verbatim>\<open>maxInteractionTime\<close> is not
  negative.
\<close>

theorem analyzeHighExitRate_flags:
  assumes "js_get rs ''highExitRate'' = Own r"
    and "threshold r ''maxInteractionTime'' = JNum maxT"
    and "threshold r ''minSessions'' = JNum minS"
  shows "(page \<in> fst ` set (flagged_pairs (analyzeHighExitRate rs env None events))
            \<longleftrightarrow> high_exit_rate_flagged maxT minS events page)
       \<and> (\<exists>issues. analyzeHighExitRate rs env None events = Some (Inr issues)
            \<and> (\<forall>i \<in> set issues.
                  elementSelector i = None
                \<and> map_of (metrics i) ''exitRate'' = Some (exitRate maxT events (pageUrl i))
                \<and> map_of (metrics i) ''sessions''
                    = Some (of_nat (card (page_sessions events (pageUrl i))))
                \<and> map_of (metrics i) ''quickExitSessions''
                    = Some (of_nat (card (quick_exit_sessions maxT events (pageUrl i))))))
       \<and> (length (filter (\<lambda>e. page_url e = page \<and> session_id e = s) events) = 1 \<longrightarrow>
             session_duration events page s = 0
           \<and> (s \<in> quick_exit_sessions maxT events page \<longleftrightarrow> 0 \<le> maxT))"
proof (intro conjI)
  let ?rows = "highExitRate_query maxT minS events"
  let ?issues = "map (highExitRate_issue r env) (enumerate 0 ?rows)"
  note ok = analyzeHighExitRate_ok [OF assms, of env events]
  have pairs: "flagged_pairs (analyzeHighExitRate rs env None events)
                 = map (\<lambda>x. (fst (snd x), None)) (enumerate 0 ?rows)"
    unfolding ok flagged_pairs_def
    by (simp add: highExitRate_issue_def case_prod_beta comp_def)
  have "fst ` set (flagged_pairs (analyzeHighExitRate rs env None events))
          = fst ` snd ` set (enumerate 0 ?rows)"
    unfolding pairs by (simp add: image_image)
  also have "\<dots> = fst ` set ?rows"
    by (simp only: snd_set_enumerate)
  finally have "page \<in> fst ` set (flagged_pairs (analyzeHighExitRate rs env None events))
                  \<longleftrightarrow> (\<exists>row \<in> set ?rows. fst row = page)"
    by auto
  also have "\<dots> \<longleftrightarrow> high_exit_rate_flagged maxT minS events page"
    unfolding Bex_def highExitRate_query_rows by auto
  finally show "page \<in> fst ` set (flagged_pairs (analyzeHighExitRate rs env None events))
            \<longleftrightarrow> high_exit_rate_flagged maxT minS events page" .
  have "elementSelector i = None
                \<and> map_of (metrics i) ''exitRate'' = Some (exitRate maxT events (pageUrl i))
                \<and> map_of (metrics i) ''sessions''
                    = Some (of_nat (card (page_sessions events (pageUrl i))))
                \<and> map_of (metrics i) ''quickExitSessions''
                    = Some (of_nat (card (quick_exit_sessions maxT events (pageUrl i))))"
    if "i \<in> set ?issues" for i
  proof -
    from that obtain x where x: "x \<in> set (enumerate 0 ?rows)"
      and i: "i = highExitRate_issue r env (fst x, snd x)"
      by auto
    from x have "snd x \<in> set ?rows"
      using snd_set_enumerate [of 0 ?rows] by blast
    then obtain p where
      row: "snd x = (p, card (page_sessions events p),
                  card (quick_exit_sessions maxT events p), exitRate maxT events p)"
      unfolding highExitRate_query_rows by blast
    show ?thesis
      unfolding i highExitRate_issue_fields row by simp
  qed
  then show "\<exists>issues. analyzeHighExitRate rs env None events = Some (Inr issues)
            \<and> (\<forall>i \<in> set issues.
                  elementSelector i = None
                \<and> map_of (metrics i) ''exitRate'' = Some (exitRate maxT events (pageUrl i))
                \<and> map_of (metrics i) ''sessions''
                    = Some (of_nat (card (page_sessions events (pageUrl i))))
                \<and> map_of (metrics i) ''quickExitSessions''
                    = Some (of_nat (card (quick_exit_sessions maxT events (pageUrl i)))))"
    using ok by blast
  show "length (filter (\<lambda>e. page_url e = page \<and> session_id e = s) events) = 1 \<longrightarrow>
             session_duration events page s = 0
           \<and> (s \<in> quick_exit_sessions maxT events page \<longleftrightarrow> 0 \<le> maxT)"
    using single_event_duration [of page s events]
    unfolding quick_exit_sessions_def by simp
qed

text \<open>
  Claim C5 as stated fails in two places. With \<^verbatim>\<open>maxInteractionTime = -1\<close> the query
  tests \<^verbatim>\<open>duration <= -1\<close>, which no session passes, so the four single-event sessions
  of \<^verbatim>\<open>/pricing\<close> in \<open>exit_db\<close> are no quick exits and the page is not flagged, while
  they are four quick exits among six sessions as the claim counts them. And with the
  default thresholds the issue for \<^verbatim>\<open>/pricing\<close> reports the exit rate
  \<^verbatim>\<open>0.8333333333333334\<close>, a double, where the claim has five sixths.
\<close>

theorem analyzeHighExitRate_counterexample:
  "threshold_of impatient_rules ''highExitRate'' ''maxInteractionTime'' = JNum (- 1)
   \<and> threshold_of impatient_rules ''highExitRate'' ''minSessions'' = JNum 5
   \<and> flagged_pairs (analyzeHighExitRate impatient_rules env0 None exit_db) = []
   \<and> high_exit_rate_flagged_as_claimed (- 1) 5 exit_db ''/pricing''
   \<and> reported ''exitRate'' (analyzeHighExitRate new_rules env0 None exit_db)
       = [(''/pricing'', Some (7505999378950827 / 9007199254740992))]
   \<and> exitRate_as_claimed 10000 exit_db ''/pricing'' = 5 / 6"
  by code_simp

theorem analyzeHighExitRate_flags_witness:
  "\<exists>r r'. js_get new_rules ''highExitRate'' = Own r
      \<and> threshold r ''maxInteractionTime'' = JNum 10000
      \<and> threshold r ''minSessions'' = JNum 5
      \<and> ''/pricing'' \<in> fst ` set (flagged_pairs (analyzeHighExitRate new_rules env0 None exit_db))
      \<and> high_exit_rate_flagged 10000 5 exit_db ''/pricing''
      \<and> length (filter (\<lambda>e. page_url e = ''/pricing'' \<and> session_id e = ''session-quick-exit-0'')
                   exit_db) = 1
      \<and> session_duration exit_db ''/pricing'' ''session-quick-exit-0'' = 0
      \<and> ''session-quick-exit-0'' \<in> quick_exit_sessions 10000 exit_db ''/pricing''
      \<and> js_get impatient_rules ''highExitRate'' = Own r'
      \<and> threshold r' ''maxInteractionTime'' = JNum (- 1)
      \<and> threshold r' ''minSessions'' = JNum 5
      \<and> ''/pricing'' \<notin> fst ` set (flagged_pairs
                                     (analyzeHighExitRate impatient_rules env0 None exit_db))
      \<and> \<not> high_exit_rate_flagged (- 1) 5 exit_db ''/pricing''
      \<and> ''session-quick-exit-0'' \<notin> quick_exit_sessions (- 1) exit_db ''/pricing''"
proof -
  have "case js_get new_rules ''highExitRate'' of
          Own r \<Rightarrow> threshold r ''maxInteractionTime'' = JNum 10000
                    \<and> threshold r ''minSessions'' = JNum 5
        | _ \<Rightarrow> False"
    by code_simp
  then obtain r where r: "js_get new_rules ''highExitRate'' = Own r"
    and t1: "threshold r ''maxInteractionTime'' = JNum 10000"
    and t2: "threshold r ''minSessions'' = JNum 5"
    by (simp split: property.splits)
  have "case js_get impatient_rules ''highExitRate'' of
          Own r \<Rightarrow> threshold r ''maxInteractionTime'' = JNum (- 1)
                    \<and> threshold r ''minSessions'' = JNum 5
        | _ \<Rightarrow> False"
    by code_simp
  then obtain r' where r': "js_get impatient_rules ''highExitRate'' = Own r'"
    and t1': "threshold r' ''maxInteractionTime'' = JNum (- 1)"
    and t2': "threshold r' ''minSessions'' = JNum 5"
    by (simp split: property.splits)
  have code: "''/pricing'' \<in> fst ` set (flagged_pairs (analyzeHighExitRate new_rules env0 None exit_db))"
    by code_simp
  have code': "''/pricing'' \<notin> fst ` set (flagged_pairs
                                     (analyzeHighExitRate impatient_rules env0 None exit_db))"
    by code_simp
  have one: "length (filter (\<lambda>e. page_url e = ''/pricing'' \<and> session_id e = ''session-quick-exit-0'')
                   exit_db) = 1"
    by code_simp
  note inst = analyzeHighExitRate_flags [OF r t1 t2, of "''/pricing''" env0 exit_db
      "''session-quick-exit-0''"]
  note inst' = analyzeHighExitRate_flags [OF r' t1' t2', of "''/pricing''" env0 exit_db
      "''session-quick-exit-0''"]
  from inst code have fl: "high_exit_rate_flagged 10000 5 exit_db ''/pricing''"
    by (simp only:)
  from inst' have "''/pricing'' \<in> fst ` set (flagged_pairs
                                     (analyzeHighExitRate impatient_rules env0 None exit_db))
      \<longleftrightarrow> high_exit_rate_flagged (- 1) 5 exit_db ''/pricing''"
    by (elim conjE)
  with code' have fl': "\<not> high_exit_rate_flagged (- 1) 5 exit_db ''/pricing''"
    by simp
  from inst have "length (filter (\<lambda>e. page_url e = ''/pricing''
                                    \<and> session_id e = ''session-quick-exit-0'') exit_db) = 1 \<longrightarrow>
      session_duration exit_db ''/pricing'' ''session-quick-exit-0'' = 0
      \<and> (''session-quick-exit-0'' \<in> quick_exit_sessions 10000 exit_db ''/pricing''
           \<longleftrightarrow> (0 :: rat) \<le> 10000)"
    by (elim conjE)
  from this one have single: "session_duration exit_db ''/pricing'' ''session-quick-exit-0'' = 0
      \<and> (''session-quick-exit-0'' \<in> quick_exit_sessions 10000 exit_db ''/pricing''
           \<longleftrightarrow> (0 :: rat) \<le> 10000)"
    by (rule mp)
  then have dur: "session_duration exit_db ''/pricing'' ''session-quick-exit-0'' = 0"
    and quick: "''session-quick-exit-0'' \<in> quick_exit_sessions 10000 exit_db ''/pricing''"
    by simp_all
  from inst' have "length (filter (\<lambda>e. page_url e = ''/pricing''
                                    \<and> session_id e = ''session-quick-exit-0'') exit_db) = 1 \<longrightarrow>
      session_duration exit_db ''/pricing'' ''session-quick-exit-0'' = 0
      \<and> (''session-quick-exit-0'' \<in> quick_exit_sessions (- 1) exit_db ''/pricing''
           \<longleftrightarrow> (0 :: rat) \<le> - 1)"
    by (elim conjE)
  from this one have "session_duration exit_db ''/pricing'' ''session-quick-exit-0'' = 0
      \<and> (''session-quick-exit-0'' \<in> quick_exit_sessions (- 1) exit_db ''/pricing''
           \<longleftrightarrow> (0 :: rat) \<le> - 1)"
    by (rule mp)
  then have quick': "''session-quick-exit-0'' \<notin> quick_exit_sessions (- 1) exit_db ''/pricing''"
    by simp
  show ?thesis
  proof (rule exI [of _ r], rule exI [of _ r'], intro conjI)
    show "js_get new_rules ''highExitRate'' = Own r" by (rule r)
    show "threshold r ''maxInteractionTime'' = JNum 10000" by (rule t1)
    show "threshold r ''minSessions'' = JNum 5" by (rule t2)
    show "''/pricing'' \<in> fst ` set (flagged_pairs (analyzeHighExitRate new_rules env0 None exit_db))"
      by (rule code)
    show "high_exit_rate_flagged 10000 5 exit_db ''/pricing''" by (rule fl)
    show "length (filter (\<lambda>e. page_url e = ''/pricing'' \<and> session_id e = ''session-quick-exit-0'')
                   exit_db) = 1"
      by (rule one)
    show "session_duration exit_db ''/pricing'' ''session-quick-exit-0'' = 0" by (rule dur)
    show "''session-quick-exit-0'' \<in> quick_exit_sessions 10000 exit_db ''/pricing''"
      by (rule quick)
    show "js_get impatient_rules ''highExitRate'' = Own r'" by (rule r')
    show "threshold r' ''maxInteractionTime'' = JNum (- 1)" by (rule t1')
    show "threshold r' ''minSessions'' = JNum 5" by (rule t2')
    show "''/pricing'' \<notin> fst ` set (flagged_pairs
                                     (analyzeHighExitRate impatient_rules env0 None exit_db))"
      by (rule code')
    show "\<not> high_exit_rate_flagged (- 1) 5 exit_db ''/pricing''" by (rule fl')
    show "''session-quick-exit-0'' \<notin> quick_exit_sessions (- 1) exit_db ''/pricing''"
      by (rule quick')
  qed
qed

section \<open>Properties of the low click rate detector\<close>

lemma page_session_counts_eq:
  "page_session_counts events
     = map (\<lambda>p. (p, card (page_sessions events p))) (remdups (map page_url events))"
proof -
  have "count_distinct (map session_id (filter (\<lambda>e. page_url e = p) events))
          = card (page_sessions events p)" for p
    unfolding count_distinct_card page_sessions_def by simp
  then show ?thesis
    unfolding page_session_counts_def group_by_def by (simp add: comp_def)
qed

lemma pick_distinct:
  assumes "distinct ks" and "k \<in> set ks"
  shows "concat (map (\<lambda>p. if p = k then [h p] else []) ks) = [h k]"
  using assms
proof (induction ks)
  case Nil
  then show ?case by simp
next
  case (Cons a ks)
  show ?case
  proof (cases "a = k")
    case True
    with Cons.prems have "k \<notin> set ks" by simp
    then have "concat (map (\<lambda>p. if p = k then [h p] else []) ks) = []"
      by (induction ks) auto
    with True show ?thesis by simp
  next
    case False
    with Cons show ?thesis by simp
  qed
qed

lemma joined_eq:
  "[(e, snd p). e \<leftarrow> events, p \<leftarrow> page_session_counts events, fst p = page_url e]
     = map (with_page_sessions events) events"
proof -
  have "concat (map (\<lambda>p. if fst p = page_url e then [(e, snd p)] else [])
                  (page_session_counts events)) = [with_page_sessions events e]"
    if "e \<in> set events" for e
  proof -
    have "concat (map (\<lambda>p. if fst p = page_url e then [(e, snd p)] else [])
                  (page_session_counts events))
            = concat (map (\<lambda>p. if p = page_url e then [(e, card (page_sessions events p))] else [])
                  (remdups (map page_url events)))"
      unfolding page_session_counts_eq by (simp add: comp_def cong: if_cong)
    also have "\<dots> = [(e, card (page_sessions events (page_url e)))]"
      using that by (intro pick_distinct) simp_all
    finally show ?thesis by (simp add: with_page_sessions_def)
  qed
  then have "concat (map (\<lambda>e. concat (map (\<lambda>p. if fst p = page_url e then [(e, snd p)] else [])
                  (page_session_counts events))) events)
           = concat (map (\<lambda>e. [with_page_sessions events e]) events)"
    by (intro arg_cong [where f = concat] map_cong) simp_all
  then show ?thesis by simp
qed


lemma lowClickRate_query_set:
  "row \<in> set (lowClickRate_query minPageViews minClickRate events) \<longleftrightarrow>
     (\<exists>sel page n g.
          ((sel, page, n), g) \<in> set (group_by (\<lambda>(e, n). (element_selector e, page_url e, n))
                (map (with_page_sessions events) (filter counted_click events)))
          \<and> minPageViews \<le> of_nat n
          \<and> double_of (of_nat (count_distinct (map (session_id \<circ> fst) g)) / of_nat n)
                < minClickRate
          \<and> row = (sel, page, length g, count_distinct (map (session_id \<circ> fst) g), n,
                   double_of (of_nat (count_distinct (map (session_id \<circ> fst) g)) / of_nat n)))"
proof -
  have sel: "filter (\<lambda>(e, page_sessions). event_type e = ''click''
                               \<and> element_selector e \<noteq> None
                               \<and> element_selector e \<noteq> Some []) (map (with_page_sessions events) events)
         = map (with_page_sessions events) (filter counted_click events)"
    by (simp add: filter_map comp_def with_page_sessions_def counted_click_def [abs_def])
  show ?thesis
    unfolding lowClickRate_query_def Let_def joined_eq sel by (simp add: comp_def) blast
qed

lemma low_click_group:
  assumes "g = filter (\<lambda>x. (element_selector (fst x), page_url (fst x), snd x) = (Some sel, page, n))
                 (map (with_page_sessions events) (filter counted_click events))"
    and "sel \<noteq> []" and "n = card (page_sessions events page)"
  shows "length g = click_count events page sel"
    and "count_distinct (map (session_id \<circ> fst) g) = card (clicking_sessions events page sel)"
proof -
  have g: "g = map (with_page_sessions events)
                 (filter (\<lambda>e. event_type e = ''click'' \<and> element_selector e = Some sel
                       \<and> page_url e = page) events)"
    unfolding assms(1)
    using assms(2,3)
    by (auto simp: filter_map comp_def with_page_sessions_def counted_click_def
        intro!: arg_cong [where f = "map (with_page_sessions events)"] filter_cong)
  show "length g = click_count events page sel"
    unfolding g click_count_def by simp
  have "map (session_id \<circ> fst) g
          = map session_id (filter (\<lambda>e. event_type e = ''click'' \<and> element_selector e = Some sel
                       \<and> page_url e = page) events)"
    unfolding g by (simp add: comp_def with_page_sessions_def)
  then show "count_distinct (map (session_id \<circ> fst) g) = card (clicking_sessions events page sel)"
    unfolding count_distinct_card clicking_sessions_def by simp
qed

lemma low_click_keys:
  "(so, page, n) \<in> (\<lambda>(e, n). (element_selector e, page_url e, n))
        ` set (map (with_page_sessions events) (filter counted_click events))
   \<longleftrightarrow> (\<exists>sel. so = Some sel \<and> sel \<noteq> [] \<and> clicking_sessions events page sel \<noteq> {}
          \<and> n = card (page_sessions events page))"
  unfolding clicking_sessions_def with_page_sessions_def counted_click_def
  by (auto simp: image_iff)

lemma lowClickRate_query_rows:
  "row \<in> set (lowClickRate_query minPageViews minClickRate events) \<longleftrightarrow>
     (\<exists>page sel. low_click_rate_flagged minPageViews minClickRate events page sel
        \<and> row = (Some sel, page, click_count events page sel,
                  card (clicking_sessions events page sel),
                  card (page_sessions events page), clickRate events page sel))"
  (is "?lhs \<longleftrightarrow> ?rhs")
proof
  let ?K = "\<lambda>(e, n). (element_selector e, page_url e, n)"
  let ?sel = "map (with_page_sessions events) (filter counted_click events)"
  assume ?lhs
  then obtain so page n g where
    grp: "((so, page, n), g) \<in> set (group_by ?K ?sel)"
    and cond: "minPageViews \<le> of_nat n"
      "double_of (of_nat (count_distinct (map (session_id \<circ> fst) g)) / of_nat n)
         < minClickRate"
    and row: "row = (so, page, length g, count_distinct (map (session_id \<circ> fst) g), n,
                   double_of (of_nat (count_distinct (map (session_id \<circ> fst) g)) / of_nat n))"
    unfolding lowClickRate_query_set by blast
  from grp have key: "(so, page, n) \<in> ?K ` set ?sel"
    and g0: "g = filter (\<lambda>x. ?K x = (so, page, n)) ?sel"
    unfolding group_by_iff by simp_all
  from key obtain sel where so: "so = Some sel" and sel: "sel \<noteq> []"
    and occ: "clicking_sessions events page sel \<noteq> {}"
    and n: "n = card (page_sessions events page)"
    unfolding low_click_keys by blast
  have g: "g = filter (\<lambda>x. (element_selector (fst x), page_url (fst x), snd x)
                           = (Some sel, page, n)) ?sel"
    unfolding g0 so by (simp add: case_prod_beta)
  note cnt = low_click_group [OF g sel n]
  have "low_click_rate_flagged minPageViews minClickRate events page sel"
    unfolding low_click_rate_flagged_def clickRate_def
    using sel occ cond unfolding cnt n by simp
  moreover have "row = (Some sel, page, click_count events page sel,
                  card (clicking_sessions events page sel),
                  card (page_sessions events page), clickRate events page sel)"
    unfolding row cnt so n clickRate_def by simp
  ultimately show ?rhs by blast
next
  let ?K = "\<lambda>(e, n). (element_selector e, page_url e, n)"
  let ?sel = "map (with_page_sessions events) (filter counted_click events)"
  assume ?rhs
  then obtain page sel where
    fl: "low_click_rate_flagged minPageViews minClickRate events page sel"
    and row: "row = (Some sel, page, click_count events page sel,
                  card (clicking_sessions events page sel),
                  card (page_sessions events page), clickRate events page sel)"
    by blast
  define n where "n = card (page_sessions events page)"
  define g where "g = filter (\<lambda>x. (element_selector (fst x), page_url (fst x), snd x)
                           = (Some sel, page, n)) ?sel"
  from fl have sel: "sel \<noteq> []" and occ: "clicking_sessions events page sel \<noteq> {}"
    unfolding low_click_rate_flagged_def by simp_all
  note cnt = low_click_group [OF g_def sel n_def]
  have "(Some sel, page, n) \<in> ?K ` set ?sel"
    unfolding low_click_keys using sel occ n_def by blast
  then have grp: "((Some sel, page, n), g) \<in> set (group_by ?K ?sel)"
    unfolding group_by_iff g_def by (simp add: case_prod_beta)
  from fl have cond: "minPageViews \<le> of_nat n"
      "double_of (of_nat (count_distinct (map (session_id \<circ> fst) g)) / of_nat n)
         < minClickRate"
    unfolding low_click_rate_flagged_def clickRate_def cnt n_def by simp_all
  have "row = (Some sel, page, length g, count_distinct (map (session_id \<circ> fst) g), n,
                   double_of (of_nat (count_distinct (map (session_id \<circ> fst) g)) / of_nat n))"
    unfolding row cnt clickRate_def n_def by simp
  with grp cond show ?lhs
    unfolding lowClickRate_query_set by blast
qed

lemma page_sessions_finite: "finite (page_sessions events page)"
  unfolding page_sessions_def by simp

lemma page_sessions_positive:
  assumes "e \<in> set events"
  shows "0 < card (page_sessions events (page_url e))"
proof -
  have "session_id e \<in> page_sessions events (page_url e)"
    unfolding page_sessions_def using assms by blast
  then show ?thesis
    using page_sessions_finite by (metis card_gt_0_iff empty_iff)
qed

lemma clicking_sessions_subset:
  "clicking_sessions events page sel \<subseteq> page_sessions events page"
  unfolding clicking_sessions_def page_sessions_def by blast

lemma analyzeLowClickRate_ok:
  assumes "js_get rs ''lowClickRate'' = Own r"
    and "threshold r ''minClickRate'' = JNum minClickRate"
    and "threshold r ''minPageViews'' = JNum minPageViews"
  shows "analyzeLowClickRate rs env None events
           = Some (Inr (map (lowClickRate_issue r env)
                          (enumerate 0 (lowClickRate_query minPageViews minClickRate events))))"
  using assms by (simp add: analyzeLowClickRate_def num_def respond_ok)

lemma lowClickRate_issue_fields:
  "pageUrl (lowClickRate_issue r env (i, row)) = fst (snd row)"
  "elementSelector (lowClickRate_issue r env (i, row)) = fst row"
  "metrics (lowClickRate_issue r env (i, row))
     = [(''clickRate'', snd (snd (snd (snd (snd row))))),
        (''clicks'', of_nat (fst (snd (snd row)))),
        (''uniqueSessions'', of_nat (fst (snd (snd (snd row))))),
        (''pageSessions'', of_nat (fst (snd (snd (snd (snd row))))))]"
  by (simp_all add: lowClickRate_issue_def case_prod_beta)

lemma low_click_rate_flagged_sessions:
  assumes "low_click_rate_flagged minPageViews minClickRate events page sel"
  shows "0 < card (page_sessions events page)"
proof -
  from assms have "clicking_sessions events page sel \<noteq> {}"
    unfolding low_click_rate_flagged_def by simp
  then have "page_sessions events page \<noteq> {}"
    using clicking_sessions_subset by blast
  then show ?thesis
    using page_sessions_finite by (simp add: card_gt_0_iff)
qed

text \<open>
  Claim C4, as amended. With numeric thresholds and a successful read, the low click
  rate detector flags a (page, selector) pair exactly when the selector is a non-empty
  string that some click event on the page carries, the page has at least
  \<^verbatim>\<open>minPageViews\<close> distinct sessions, and the click rate, the double nearest to the
  number of distinct sessions that clicked the selector on the page divided by the number
  of distinct sessions on the page, is below \<^verbatim>\<open>minClickRate\<close>. A pair without a
  selector is never flagged. Every issue reports that click rate and the two session
  counts, and its page has at least one session. A page with \<^verbatim>\<open>minPageViews - 1\<close>
  sessions is not flagged, and every page that the query divides by has at least one
  session.
\<close>

theorem analyzeLowClickRate_flags:
  assumes "js_get rs ''lowClickRate'' = Own r"
    and "threshold r ''minClickRate'' = JNum minClickRate"
    and "threshold r ''minPageViews'' = JNum minPageViews"
  shows "((page, Some sel) \<in> set (flagged_pairs (analyzeLowClickRate rs env None events))
            \<longleftrightarrow> low_click_rate_flagged minPageViews minClickRate events page sel)
       \<and> (page, None) \<notin> set (flagged_pairs (analyzeLowClickRate rs env None events))
       \<and> (\<exists>issues. analyzeLowClickRate rs env None events = Some (Inr issues)
            \<and> (\<forall>i \<in> set issues. \<exists>s.
                  elementSelector i = Some s
                \<and> map_of (metrics i) ''clickRate'' = Some (clickRate events (pageUrl i) s)
                \<and> map_of (metrics i) ''uniqueSessions''
                    = Some (of_nat (card (clicking_sessions events (pageUrl i) s)))
                \<and> map_of (metrics i) ''pageSessions''
                    = Some (of_nat (card (page_sessions events (pageUrl i))))
                \<and> 0 < card (page_sessions events (pageUrl i))))
       \<and> (of_nat (card (page_sessions events page)) = minPageViews - 1 \<longrightarrow>
             page \<notin> fst ` set (flagged_pairs (analyzeLowClickRate rs env None events)))
       \<and> (\<forall>e \<in> set events. 0 < card (page_sessions events (page_url e)))"
proof -
  let ?rows = "lowClickRate_query minPageViews minClickRate events"
  let ?issues = "map (lowClickRate_issue r env) (enumerate 0 ?rows)"
  let ?pairs = "flagged_pairs (analyzeLowClickRate rs env None events)"
  note ok = analyzeLowClickRate_ok [OF assms, of env events]
  have pairs: "?pairs = map (\<lambda>x. (fst (snd (snd x)), fst (snd x))) (enumerate 0 ?rows)"
    unfolding ok flagged_pairs_def
    by (simp add: lowClickRate_issue_def case_prod_beta comp_def)
  have "set ?pairs = (\<lambda>row. (fst (snd row), fst row)) ` snd ` set (enumerate 0 ?rows)"
    unfolding pairs by (simp add: image_image)
  then have set_pairs: "set ?pairs = (\<lambda>row. (fst (snd row), fst row)) ` set ?rows"
    by (simp only: snd_set_enumerate)
  have mem: "(p, so) \<in> set ?pairs \<longleftrightarrow>
               (\<exists>s. so = Some s \<and> low_click_rate_flagged minPageViews minClickRate events p s)"
    for p so
  proof -
    have "(p, so) \<in> set ?pairs \<longleftrightarrow> (\<exists>row. row \<in> set ?rows \<and> fst (snd row) = p \<and> fst row = so)"
      unfolding set_pairs by blast
    also have "\<dots> \<longleftrightarrow>
               (\<exists>s. so = Some s \<and> low_click_rate_flagged minPageViews minClickRate events p s)"
      unfolding lowClickRate_query_rows by auto
    finally show ?thesis .
  qed
  have c1: "(page, Some sel) \<in> set ?pairs
            \<longleftrightarrow> low_click_rate_flagged minPageViews minClickRate events page sel"
    unfolding mem by simp
  have c2: "(page, None) \<notin> set ?pairs"
    unfolding mem by simp
  have each: "\<exists>s. elementSelector i = Some s
                \<and> map_of (metrics i) ''clickRate'' = Some (clickRate events (pageUrl i) s)
                \<and> map_of (metrics i) ''uniqueSessions''
                    = Some (of_nat (card (clicking_sessions events (pageUrl i) s)))
                \<and> map_of (metrics i) ''pageSessions''
                    = Some (of_nat (card (page_sessions events (pageUrl i))))
                \<and> 0 < card (page_sessions events (pageUrl i))"
    if "i \<in> set ?issues" for i
  proof -
    from that obtain x where x: "x \<in> set (enumerate 0 ?rows)"
      and i: "i = lowClickRate_issue r env (fst x, snd x)"
      by auto
    from x have "snd x \<in> set ?rows"
      using snd_set_enumerate [of 0 ?rows] by blast
    then obtain p s where
      fl: "low_click_rate_flagged minPageViews minClickRate events p s"
      and row: "snd x = (Some s, p, click_count events p s,
                  card (clicking_sessions events p s),
                  card (page_sessions events p), clickRate events p s)"
      unfolding lowClickRate_query_rows by blast
    show ?thesis
      unfolding i lowClickRate_issue_fields row
      using low_click_rate_flagged_sessions [OF fl] by simp
  qed
  have c3: "\<exists>issues. analyzeLowClickRate rs env None events = Some (Inr issues)
            \<and> (\<forall>i \<in> set issues. \<exists>s.
                  elementSelector i = Some s
                \<and> map_of (metrics i) ''clickRate'' = Some (clickRate events (pageUrl i) s)
                \<and> map_of (metrics i) ''uniqueSessions''
                    = Some (of_nat (card (clicking_sessions events (pageUrl i) s)))
                \<and> map_of (metrics i) ''pageSessions''
                    = Some (of_nat (card (page_sessions events (pageUrl i))))
                \<and> 0 < card (page_sessions events (pageUrl i)))"
    using ok each by blast
  have c4: "page \<notin> fst ` set ?pairs"
    if "of_nat (card (page_sessions events page)) = minPageViews - 1"
  proof
    assume "page \<in> fst ` set ?pairs"
    then obtain so where "(page, so) \<in> set ?pairs" by auto
    then obtain s where "low_click_rate_flagged minPageViews minClickRate events page s"
      unfolding mem by blast
    then have "minPageViews \<le> of_nat (card (page_sessions events page))"
      unfolding low_click_rate_flagged_def by simp
    with that show False by simp
  qed
  have c5: "\<forall>e \<in> set events. 0 < card (page_sessions events (page_url e))"
    using page_sessions_positive by blast
  from c1 c2 c3 c4 c5 show ?thesis by blast
qed

text \<open>
  Claim C4 as stated fails on \<open>five_of_six_db\<close> with two page views and the click rate
  \<^verbatim>\<open>0.8333333333333334\<close> as thresholds. Five of the six sessions of the page clicked
  \<^verbatim>\<open>button.cta-primary\<close>; five sixths is below the threshold, but the query compares the
  double nearest to five sixths, which is the threshold itself, and does not flag the
  pair. The claimed condition also holds of the empty selector, which one session
  clicked, and of a selector that nobody clicked; the query keeps no clicks with an
  empty selector and has no row for a selector without clicks.
\<close>

theorem analyzeLowClickRate_counterexample:
  "threshold_of five_sixths_rules ''lowClickRate'' ''minPageViews'' = JNum 2
   \<and> threshold_of five_sixths_rules ''lowClickRate'' ''minClickRate''
       = JNum (7505999378950827 / 9007199254740992)
   \<and> flagged_pairs (analyzeLowClickRate five_sixths_rules env0 None five_of_six_db) = []
   \<and> low_click_rate_flagged_as_claimed 2 (7505999378950827 / 9007199254740992) five_of_six_db
        ''/landing-page'' ''button.cta-primary''
   \<and> low_click_rate_flagged_as_claimed 2 (7505999378950827 / 9007199254740992) five_of_six_db
        ''/landing-page'' []
   \<and> low_click_rate_flagged_as_claimed 2 (7505999378950827 / 9007199254740992) five_of_six_db
        ''/landing-page'' ''a.footer-link''"
  by code_simp

theorem analyzeLowClickRate_flags_witness:
  "\<exists>r. js_get lowered_rules ''lowClickRate'' = Own r
      \<and> threshold r ''minClickRate'' = JNum (3 / 4)
      \<and> threshold r ''minPageViews'' = JNum 3
      \<and> low_click_rate_flagged 3 (3 / 4) landing_db ''/landing-page'' ''button.cta-primary''
      \<and> (''/landing-page'', Some ''button.cta-primary'')
            \<in> set (flagged_pairs (analyzeLowClickRate lowered_rules env0 None landing_db))
      \<and> of_nat (card (page_sessions landing_db ''/small-page'')) = (3 :: rat) - 1
      \<and> clickRate landing_db ''/small-page'' ''button.cta-primary'' < 3 / 4
      \<and> ''/small-page'' \<notin> fst ` set (flagged_pairs
                                       (analyzeLowClickRate lowered_rules env0 None landing_db))"
proof -
  have "case js_get lowered_rules ''lowClickRate'' of
          Own r \<Rightarrow> threshold r ''minClickRate'' = JNum (3 / 4)
                    \<and> threshold r ''minPageViews'' = JNum 3
        | _ \<Rightarrow> False"
    by code_simp
  then obtain r where r: "js_get lowered_rules ''lowClickRate'' = Own r"
    and t1: "threshold r ''minClickRate'' = JNum (3 / 4)"
    and t2: "threshold r ''minPageViews'' = JNum 3"
    by (simp split: property.splits)
  have spec: "low_click_rate_flagged 3 (3 / 4) landing_db ''/landing-page'' ''button.cta-primary''"
    by code_simp
  have one: "of_nat (card (page_sessions landing_db ''/small-page'')) = (3 :: rat) - 1"
    by code_simp
  have rate: "clickRate landing_db ''/small-page'' ''button.cta-primary'' < 3 / 4"
    by code_simp
  note inst1 = analyzeLowClickRate_flags [OF r t1 t2, of "''/landing-page''"
      "''button.cta-primary''" env0 landing_db]
  note inst2 = analyzeLowClickRate_flags [OF r t1 t2, of "''/small-page''"
      "''button.cta-primary''" env0 landing_db]
  from inst1 spec have code: "(''/landing-page'', Some ''button.cta-primary'')
            \<in> set (flagged_pairs (analyzeLowClickRate lowered_rules env0 None landing_db))"
    by (simp only:)
  from inst2 have "of_nat (card (page_sessions landing_db ''/small-page'')) = (3 :: rat) - 1
      \<longrightarrow> ''/small-page'' \<notin> fst ` set (flagged_pairs
                                       (analyzeLowClickRate lowered_rules env0 None landing_db))"
    by (elim conjE)
  from this one have other: "''/small-page'' \<notin> fst ` set (flagged_pairs
                                       (analyzeLowClickRate lowered_rules env0 None landing_db))"
    by (rule mp)
  show ?thesis
  proof (intro exI [of _ r] conjI)
    show "js_get lowered_rules ''lowClickRate'' = Own r" by (rule r)
    show "threshold r ''minClickRate'' = JNum (3 / 4)" by (rule t1)
    show "threshold r ''minPageViews'' = JNum 3" by (rule t2)
    show "low_click_rate_flagged 3 (3 / 4) landing_db ''/landing-page'' ''button.cta-primary''"
      by (rule spec)
    show "(''/landing-page'', Some ''button.cta-primary'')
            \<in> set (flagged_pairs (analyzeLowClickRate lowered_rules env0 None landing_db))"
      by (rule code)
    show "of_nat (card (page_sessions landing_db ''/small-page'')) = (3 :: rat) - 1"
      by (rule one)
    show "clickRate landing_db ''/small-page'' ''button.cta-primary'' < 3 / 4"
      by (rule rate)
    show "''/small-page'' \<notin> fst ` set (flagged_pairs
                                       (analyzeLowClickRate lowered_rules env0 None landing_db))"
      by (rule other)
  qed
qed

section \<open>Properties of the dead click detector\<close>

lemma sql_like_percent: "sql_like ''%'' s"
  by (induction s) simp_all

lemma sql_like_prefix:
  assumes "CHR ''%'' \<notin> set w" and "CHR ''_'' \<notin> set w"
  shows "sql_like (w @ ''%'') s \<longleftrightarrow> tag_prefix_ci w s"
  using assms
proof (induction w arbitrary: s)
  case Nil
  then show ?case by (simp add: sql_like_percent tag_prefix_ci_def)
next
  case (Cons p ps)
  show ?case
  proof (cases s)
    case Nil
    with Cons.prems show ?thesis by (auto simp: tag_prefix_ci_def)
  next
    case (Cons c cs)
    with Cons.prems Cons.IH [of cs] show ?thesis
      by (auto simp: tag_prefix_ci_def)
  qed
qed

lemma whitelist_plain:
  assumes "w \<in> set non_interactive_whitelist"
  shows "CHR ''%'' \<notin> set w" and "CHR ''_'' \<notin> set w"
    and "CHR ''.'' \<notin> lower ` set w" and "CHR ''#'' \<notin> lower ` set w"
proof -
  from assms have "w = ''div'' \<or> w = ''span'' \<or> w = ''p'' \<or> w = ''h1'' \<or> w = ''h2''
      \<or> w = ''h3'' \<or> w = ''h4'' \<or> w = ''h5'' \<or> w = ''h6''"
    unfolding non_interactive_whitelist_def by simp
  then show "CHR ''%'' \<notin> set w" and "CHR ''_'' \<notin> set w"
    and "CHR ''.'' \<notin> lower ` set w" and "CHR ''#'' \<notin> lower ` set w"
    by (elim disjE; simp add: lower_def)+
qed

lemma matches_whitelist:
  "matches_non_interactive non_interactive_whitelist s \<longleftrightarrow> non_interactive_ci s"
  unfolding matches_non_interactive_def non_interactive_ci_def list_ex_iff
  using sql_like_prefix whitelist_plain(1,2) by blast

lemma dead_clicks_flagged_iff:
  "dead_clicks_flagged m events page sel \<longleftrightarrow>
     non_interactive_ci sel \<and> 0 < click_count events page sel
     \<and> m \<le> of_nat (click_count events page sel)"
proof (cases "non_interactive_ci sel")
  case True
  then show ?thesis
    unfolding dead_clicks_flagged_def click_count_def Let_def by simp
next
  case False
  then show ?thesis
    unfolding dead_clicks_flagged_def click_count_def Let_def by simp
qed

lemma click_count_positive:
  "0 < click_count events page sel \<longleftrightarrow>
     (\<exists>e \<in> set events. event_type e = ''click'' \<and> element_selector e = Some sel
                        \<and> page_url e = page)"
  unfolding click_count_def by (auto simp: filter_empty_conv)

lemma deadClicks_query_set:
  "row \<in> set (deadClicks_query sels m events) \<longleftrightarrow>
     (\<exists>so page g.
          ((so, page), g) \<in> set (group_by (\<lambda>e. (element_selector e, page_url e))
                (filter (\<lambda>e. event_type e = ''click''
                          \<and> (case element_selector e of
                                None \<Rightarrow> False
                              | Some s \<Rightarrow> matches_non_interactive sels s)) events))
          \<and> m \<le> of_nat (length g)
          \<and> row = (so, page, length g, count_distinct (map session_id g)))"
  unfolding deadClicks_query_def Let_def by (simp add: comp_def) blast

lemma dead_keys:
  "(so, page) \<in> (\<lambda>e. (element_selector e, page_url e))
        ` set (filter (\<lambda>e. event_type e = ''click''
                          \<and> (case element_selector e of
                                None \<Rightarrow> False
                              | Some s \<Rightarrow> M s)) events)
   \<longleftrightarrow> (\<exists>sel. so = Some sel \<and> M sel \<and> 0 < click_count events page sel)"
  unfolding click_count_positive
  by (auto simp: image_iff split: option.splits)

lemma dead_group:
  assumes "M sel"
  shows "filter (\<lambda>e. (element_selector e, page_url e) = (Some sel, page))
           (filter (\<lambda>e. event_type e = ''click''
                          \<and> (case element_selector e of
                                None \<Rightarrow> False
                              | Some s \<Rightarrow> M s)) events)
         = filter (\<lambda>e. event_type e = ''click'' \<and> element_selector e = Some sel
                       \<and> page_url e = page) events"
  using assms by (auto intro!: filter_cong)

lemma dead_group_counts:
  assumes "M sel"
    and "g = filter (\<lambda>e. (element_selector e, page_url e) = (Some sel, page))
           (filter (\<lambda>e. event_type e = ''click''
                          \<and> (case element_selector e of
                                None \<Rightarrow> False
                              | Some s \<Rightarrow> M s)) events)"
  shows "length g = click_count events page sel"
    and "count_distinct (map session_id g) = card (clicking_sessions events page sel)"
  unfolding assms(2) dead_group [of M, OF assms(1)] click_count_def count_distinct_card
    clicking_sessions_def
  by simp_all

lemma deadClicks_query_rows:
  "row \<in> set (deadClicks_query non_interactive_whitelist m events) \<longleftrightarrow>
     (\<exists>page sel. dead_clicks_flagged m events page sel
        \<and> row = (Some sel, page, click_count events page sel,
                  card (clicking_sessions events page sel)))"
  (is "?lhs \<longleftrightarrow> ?rhs")
proof
  let ?M = "matches_non_interactive non_interactive_whitelist"
  let ?sel = "filter (\<lambda>e. event_type e = ''click''
                          \<and> (case element_selector e of
                                None \<Rightarrow> False
                              | Some s \<Rightarrow> ?M s)) events"
  assume ?lhs
  then obtain so page g where
    grp: "((so, page), g) \<in> set (group_by (\<lambda>e. (element_selector e, page_url e)) ?sel)"
    and cond: "m \<le> of_nat (length g)"
    and row: "row = (so, page, length g, count_distinct (map session_id g))"
    unfolding deadClicks_query_set by blast
  from grp have key: "(so, page) \<in> (\<lambda>e. (element_selector e, page_url e)) ` set ?sel"
    and g0: "g = filter (\<lambda>e. (element_selector e, page_url e) = (so, page)) ?sel"
    unfolding group_by_iff by simp_all
  from key obtain sel where so: "so = Some sel" and M: "?M sel"
    and occ: "0 < click_count events page sel"
    unfolding dead_keys by blast
  note cnt = dead_group_counts [of ?M, OF M g0 [unfolded so]]
  have "dead_clicks_flagged m events page sel"
    unfolding dead_clicks_flagged_iff matches_whitelist [symmetric]
    using M occ cond unfolding cnt by simp
  moreover have "row = (Some sel, page, click_count events page sel,
                  card (clicking_sessions events page sel))"
    unfolding row so cnt by simp
  ultimately show ?rhs by blast
next
  let ?M = "matches_non_interactive non_interactive_whitelist"
  let ?sel = "filter (\<lambda>e. event_type e = ''click''
                          \<and> (case element_selector e of
                                None \<Rightarrow> False
                              | Some s \<Rightarrow> ?M s)) events"
  assume ?rhs
  then obtain page sel where fl: "dead_clicks_flagged m events page sel"
    and row: "row = (Some sel, page, click_count events page sel,
                  card (clicking_sessions events page sel))"
    by blast
  from fl have M: "?M sel" and occ: "0 < click_count events page sel"
    and cond: "m \<le> of_nat (click_count events page sel)"
    unfolding dead_clicks_flagged_iff matches_whitelist by simp_all
  define g where "g = filter (\<lambda>e. (element_selector e, page_url e) = (Some sel, page)) ?sel"
  note cnt = dead_group_counts [of ?M, OF M g_def]
  have "(Some sel, page) \<in> (\<lambda>e. (element_selector e, page_url e)) ` set ?sel"
    unfolding dead_keys using M occ by blast
  then have "((Some sel, page), g) \<in> set (group_by (\<lambda>e. (element_selector e, page_url e)) ?sel)"
    unfolding group_by_iff g_def by simp
  moreover have "m \<le> of_nat (length g)"
    using cond unfolding cnt by simp
  moreover have "row = (Some sel, page, length g, count_distinct (map session_id g))"
    unfolding row cnt by simp
  ultimately show ?lhs
    unfolding deadClicks_query_set by blast
qed

lemma lower_idem: "lower (lower c) = lower c"
  unfolding lower_def by (simp split: option.splits)

lemma tag_prefix_ci_lower: "tag_prefix_ci w (map lower s) = tag_prefix_ci w s"
  unfolding tag_prefix_ci_def by (simp add: take_map lower_idem comp_def)

lemma non_interactive_ci_lower: "non_interactive_ci (map lower s) = non_interactive_ci s"
  unfolding non_interactive_ci_def by (simp only: tag_prefix_ci_lower)

lemma tag_prefix_ci_suffix:
  assumes "x \<notin> lower ` set w" and "lower x = x"
  shows "tag_prefix_ci w (tag @ x # rest) = tag_prefix_ci w tag"
proof (cases "length w \<le> length tag")
  case True
  then show ?thesis
    unfolding tag_prefix_ci_def by simp
next
  case False
  then have lt: "length tag < length w" by simp
  have "\<not> tag_prefix_ci w tag"
    unfolding tag_prefix_ci_def
  proof
    assume "map lower (take (length w) tag) = map lower w"
    then have "length (map lower (take (length w) tag)) = length (map lower w)"
      by (rule arg_cong)
    with lt show False by simp
  qed
  moreover have "\<not> tag_prefix_ci w (tag @ x # rest)"
    unfolding tag_prefix_ci_def
  proof
    assume eq: "map lower (take (length w) (tag @ x # rest)) = map lower w"
    have "map lower (take (length w) (tag @ x # rest)) ! length tag = x"
      using lt assms(2) by (simp add: nth_append)
    with eq have "map lower w ! length tag = x" by simp
    with lt have "lower (w ! length tag) = x" by simp
    with lt assms(1) show False
      by (metis image_eqI nth_mem)
  qed
  ultimately show ?thesis by simp
qed

lemma non_interactive_ci_suffix:
  assumes "x = CHR ''.'' \<or> x = CHR ''#''"
  shows "non_interactive_ci (tag @ x # rest) = non_interactive_ci tag"
proof -
  have low: "lower x = x"
    using assms by (elim disjE) (simp_all add: lower_def)
  have "tag_prefix_ci w (tag @ x # rest) = tag_prefix_ci w tag"
    if w: "w \<in> set non_interactive_whitelist" for w
  proof (rule tag_prefix_ci_suffix [OF _ low])
    show "x \<notin> lower ` set w"
      using assms whitelist_plain(3,4) [OF w] by (elim disjE) simp_all
  qed
  then show ?thesis
    unfolding non_interactive_ci_def list_ex_iff by blast
qed

lemma analyzeDeadClicks_ok:
  assumes "js_get rs ''deadClicks'' = Own r"
    and "threshold r ''minClicksOnNonInteractive'' = JNum m"
    and "threshold r ''nonInteractiveSelectors'' = JStrs non_interactive_whitelist"
  shows "analyzeDeadClicks rs env None events
           = Some (Inr (map (deadClicks_issue r env)
                          (enumerate 0 (deadClicks_query non_interactive_whitelist m events))))"
proof -
  have "\<not> list_ex (\<lambda>sel. CHR 0x27 \<in> set sel) non_interactive_whitelist"
    by (simp add: non_interactive_whitelist_def)
  moreover have "non_interactive_whitelist \<noteq> []"
    by (simp add: non_interactive_whitelist_def)
  ultimately show ?thesis
    using assms by (simp add: analyzeDeadClicks_def num_def strs_def respond_ok)
qed

lemma deadClicks_issue_fields:
  "pageUrl (deadClicks_issue r env (i, row)) = fst (snd row)"
  "elementSelector (deadClicks_issue r env (i, row)) = fst row"
  "metrics (deadClicks_issue r env (i, row))
     = [(''clicks'', of_nat (fst (snd (snd row)))),
        (''uniqueSessions'', of_nat (snd (snd (snd row))))]"
  by (simp_all add: deadClicks_issue_def case_prod_beta)

text \<open>
  Claim C3, as amended. With numeric \<^verbatim>\<open>minClicksOnNonInteractive\<close>, the whitelist of the
  constructor and a successful read, the dead click detector flags a (page, selector)
  pair exactly when the number of the pair's click events whose selector begins with a
  whitelist word, the case of ASCII letters ignored, is at least 1 and at least
  \<^verbatim>\<open>minClicksOnNonInteractive\<close>. A pair without a selector is never flagged, and every
  issue reports the number of clicks of its pair. Whether a selector begins with a
  whitelist word does not change when its letters are put in lower case, nor when a
  class or id suffix (\<^verbatim>\<open>.\<close> or \<^verbatim>\<open>#\<close> and what follows) is appended to it.
\<close>

theorem analyzeDeadClicks_flags:
  assumes "js_get rs ''deadClicks'' = Own r"
    and "threshold r ''minClicksOnNonInteractive'' = JNum m"
    and "threshold r ''nonInteractiveSelectors'' = JStrs non_interactive_whitelist"
  shows "((page, Some sel) \<in> set (flagged_pairs (analyzeDeadClicks rs env None events))
            \<longleftrightarrow> dead_clicks_flagged m events page sel)
       \<and> (page, None) \<notin> set (flagged_pairs (analyzeDeadClicks rs env None events))
       \<and> (\<exists>issues. analyzeDeadClicks rs env None events = Some (Inr issues)
            \<and> (\<forall>i \<in> set issues. \<exists>s.
                  elementSelector i = Some s
                \<and> map_of (metrics i) ''clicks'' = Some (of_nat (click_count events (pageUrl i) s))))
       \<and> non_interactive_ci (map lower sel) = non_interactive_ci sel
       \<and> (x = CHR ''.'' \<or> x = CHR ''#'' \<longrightarrow>
             non_interactive_ci (tag @ x # rest) = non_interactive_ci tag)"
proof -
  let ?rows = "deadClicks_query non_interactive_whitelist m events"
  let ?issues = "map (deadClicks_issue r env) (enumerate 0 ?rows)"
  let ?pairs = "flagged_pairs (analyzeDeadClicks rs env None events)"
  note ok = analyzeDeadClicks_ok [OF assms, of env events]
  have pairs: "?pairs = map (\<lambda>x. (fst (snd (snd x)), fst (snd x))) (enumerate 0 ?rows)"
    unfolding ok flagged_pairs_def
    by (simp add: deadClicks_issue_def case_prod_beta comp_def)
  have "set ?pairs = (\<lambda>row. (fst (snd row), fst row)) ` snd ` set (enumerate 0 ?rows)"
    unfolding pairs by (simp add: image_image)
  then have set_pairs: "set ?pairs = (\<lambda>row. (fst (snd row), fst row)) ` set ?rows"
    by (simp only: snd_set_enumerate)
  have mem: "(p, so) \<in> set ?pairs \<longleftrightarrow> (\<exists>s. so = Some s \<and> dead_clicks_flagged m events p s)"
    for p so
  proof -
    have "(p, so) \<in> set ?pairs \<longleftrightarrow> (\<exists>row. row \<in> set ?rows \<and> fst (snd row) = p \<and> fst row = so)"
      unfolding set_pairs by blast
    also have "\<dots> \<longleftrightarrow> (\<exists>s. so = Some s \<and> dead_clicks_flagged m events p s)"
      unfolding deadClicks_query_rows by auto
    finally show ?thesis .
  qed
  have c1: "(page, Some sel) \<in> set ?pairs \<longleftrightarrow> dead_clicks_flagged m events page sel"
    unfolding mem by simp
  have c2: "(page, None) \<notin> set ?pairs"
    unfolding mem by simp
  have each: "\<exists>s. elementSelector i = Some s
                \<and> map_of (metrics i) ''clicks'' = Some (of_nat (click_count events (pageUrl i) s))"
    if "i \<in> set ?issues" for i
  proof -
    from that obtain y where y: "y \<in> set (enumerate 0 ?rows)"
      and i: "i = deadClicks_issue r env (fst y, snd y)"
      by auto
    from y have "snd y \<in> set ?rows"
      using snd_set_enumerate [of 0 ?rows] by blast
    then obtain p s where
      row: "snd y = (Some s, p, click_count events p s, card (clicking_sessions events p s))"
      unfolding deadClicks_query_rows by blast
    show ?thesis
      unfolding i deadClicks_issue_fields row by simp
  qed
  have c3: "\<exists>issues. analyzeDeadClicks rs env None events = Some (Inr issues)
            \<and> (\<forall>i \<in> set issues. \<exists>s.
                  elementSelector i = Some s
                \<and> map_of (metrics i) ''clicks'' = Some (of_nat (click_count events (pageUrl i) s)))"
    using ok each by blast
  have c4: "non_interactive_ci (map lower sel) = non_interactive_ci sel"
    by (rule non_interactive_ci_lower)
  have c5: "x = CHR ''.'' \<or> x = CHR ''#'' \<longrightarrow>
             non_interactive_ci (tag @ x # rest) = non_interactive_ci tag"
    using non_interactive_ci_suffix by blast
  from c1 c2 c3 c4 c5 show ?thesis by blast
qed

text \<open>
  Claim C3 as stated fails in two places. On \<open>upper_db\<close> no whitelist word is a
  case-sensitive prefix of \<^verbatim>\<open>DIV.product-image\<close>, yet the detector flags the pair,
  because \<^verbatim>\<open>LIKE 'div%'\<close> matches it. And with \<^verbatim>\<open>minClicksOnNonInteractive = 0\<close> the
  pair of \<^verbatim>\<open>button.buy\<close> in \<open>button_db\<close> has zero clicks with a whitelisted selector,
  which is at least the threshold, yet the detector does not flag it: the query has no
  group for a pair without such a click.
\<close>

theorem analyzeDeadClicks_case_counterexample:
  "flagged_pairs (analyzeDeadClicks new_rules env0 None upper_db)
     = [(''/product-page'', Some ''DIV.product-image'')]
   \<and> \<not> dead_clicks_flagged_as_claimed 5 upper_db ''/product-page'' ''DIV.product-image''
   \<and> threshold_of zero_clicks_rules ''deadClicks'' ''minClicksOnNonInteractive'' = JNum 0
   \<and> flagged_pairs (analyzeDeadClicks zero_clicks_rules env0 None button_db) = []
   \<and> dead_clicks_flagged_as_claimed 0 button_db ''/product-page'' ''button.buy''"
  by code_simp

theorem analyzeDeadClicks_flags_witness:
  "\<exists>r. js_get new_rules ''deadClicks'' = Own r
      \<and> threshold r ''minClicksOnNonInteractive'' = JNum 5
      \<and> threshold r ''nonInteractiveSelectors'' = JStrs non_interactive_whitelist
      \<and> (''/product-page'', Some ''DIV.product-image'')
            \<in> set (flagged_pairs (analyzeDeadClicks new_rules env0 None upper_db))
      \<and> dead_clicks_flagged 5 upper_db ''/product-page'' ''DIV.product-image''
      \<and> (CHR ''.'' = CHR ''.'' \<or> CHR ''.'' = CHR ''#'')
      \<and> non_interactive_ci (''div'' @ CHR ''.'' # ''product-image'') = non_interactive_ci ''div''"
proof -
  have "case js_get new_rules ''deadClicks'' of
          Own r \<Rightarrow> threshold r ''minClicksOnNonInteractive'' = JNum 5
                    \<and> threshold r ''nonInteractiveSelectors'' = JStrs non_interactive_whitelist
        | _ \<Rightarrow> False"
    by code_simp
  then obtain r where r: "js_get new_rules ''deadClicks'' = Own r"
    and t1: "threshold r ''minClicksOnNonInteractive'' = JNum 5"
    and t2: "threshold r ''nonInteractiveSelectors'' = JStrs non_interactive_whitelist"
    by (simp split: property.splits)
  have code: "(''/product-page'', Some ''DIV.product-image'')
            \<in> set (flagged_pairs (analyzeDeadClicks new_rules env0 None upper_db))"
    by code_simp
  have dot: "CHR ''.'' = CHR ''.'' \<or> CHR ''.'' = CHR ''#''"
    by simp
  note inst = analyzeDeadClicks_flags [OF r t1 t2, of "''/product-page''"
      "''DIV.product-image''" env0 upper_db "CHR ''.''" "''div''" "''product-image''"]
  from inst code have spec: "dead_clicks_flagged 5 upper_db ''/product-page'' ''DIV.product-image''"
    by (simp only:)
  from inst have "CHR ''.'' = CHR ''.'' \<or> CHR ''.'' = CHR ''#'' \<longrightarrow>
      non_interactive_ci (''div'' @ CHR ''.'' # ''product-image'') = non_interactive_ci ''div''"
    by (elim conjE)
  from this dot have suffix:
    "non_interactive_ci (''div'' @ CHR ''.'' # ''product-image'') = non_interactive_ci ''div''"
    by (rule mp)
  show ?thesis
  proof (intro exI [of _ r] conjI)
    show "js_get new_rules ''deadClicks'' = Own r" by (rule r)
    show "threshold r ''minClicksOnNonInteractive'' = JNum 5" by (rule t1)
    show "threshold r ''nonInteractiveSelectors'' = JStrs non_interactive_whitelist"
      by (rule t2)
    show "(''/product-page'', Some ''DIV.product-image'')
            \<in> set (flagged_pairs (analyzeDeadClicks new_rules env0 None upper_db))"
      by (rule code)
    show "dead_clicks_flagged 5 upper_db ''/product-page'' ''DIV.product-image''"
      by (rule spec)
    show "CHR ''.'' = CHR ''.'' \<or> CHR ''.'' = CHR ''#''" by (rule dot)
    show "non_interactive_ci (''div'' @ CHR ''.'' # ''product-image'') = non_interactive_ci ''div''"
      by (rule suffix)
  qed
qed

section \<open>Repeated analysis\<close>

lemma issue_views:
  "stable_part (lowClickRate_issue r env1 x) = stable_part (lowClickRate_issue r env2 x)"
  "stable_part (lowScrollDepth_issue r env1 y) = stable_part (lowScrollDepth_issue r env2 y)"
  "stable_part (rageClicks_issue r env1 z) = stable_part (rageClicks_issue r env2 z)"
  "stable_part (deadClicks_issue r env1 u) = stable_part (deadClicks_issue r env2 u)"
  "stable_part (highExitRate_issue r env1 v) = stable_part (highExitRate_issue r env2 v)"
  by (simp_all add: stable_part_def lowClickRate_issue_def lowScrollDepth_issue_def
      rageClicks_issue_def deadClicks_issue_def highExitRate_issue_def case_prod_beta)

lemma respond_view:
  assumes "\<And>x. stable_part (mk1 x) = stable_part (mk2 x)"
  shows "map_sum id (map stable_part) (respond io rows mk1)
           = map_sum id (map stable_part) (respond io rows mk2)"
  using assms by (cases io) (simp_all add: respond_def db_all_def)

lemma respond_Inr_io:
  assumes "respond io rows mk = Inr is"
  shows "io = None"
  using assms by (cases io) (simp_all add: respond_def db_all_def)

lemma analyzeLowClickRate_view:
  "map_option (map_sum id (map stable_part)) (analyzeLowClickRate rs env1 io events)
     = map_option (map_sum id (map stable_part)) (analyzeLowClickRate rs env2 io events)"
  unfolding analyzeLowClickRate_def
  by (auto split: property.split option.split intro!: respond_view issue_views)

lemma analyzeLowClickRate_Inr_io:
  assumes "analyzeLowClickRate rs env io events = Some (Inr is)"
  shows "io = None"
proof -
  from assms obtain r rows where
    "respond io rows (lowClickRate_issue r env) = Inr is"
    unfolding analyzeLowClickRate_def
    by (auto split: property.splits option.splits)
  then show ?thesis by (rule respond_Inr_io)
qed

lemma analyzeLowScrollDepth_view:
  "map_option (map_sum id (map stable_part)) (analyzeLowScrollDepth rs env1 io events)
     = map_option (map_sum id (map stable_part)) (analyzeLowScrollDepth rs env2 io events)"
  unfolding analyzeLowScrollDepth_def
  by (auto split: property.split option.split intro!: respond_view issue_views)

lemma analyzeLowScrollDepth_Inr_io:
  assumes "analyzeLowScrollDepth rs env io events = Some (Inr is)"
  shows "io = None"
proof -
  from assms obtain r rows where
    "respond io rows (lowScrollDepth_issue r env) = Inr is"
    unfolding analyzeLowScrollDepth_def
    by (auto split: property.splits option.splits if_splits)
  then show ?thesis by (rule respond_Inr_io)
qed

lemma analyzeRageClicks_view:
  "map_option (map_sum id (map stable_part)) (analyzeRageClicks rs env1 io events)
     = map_option (map_sum id (map stable_part)) (analyzeRageClicks rs env2 io events)"
  unfolding analyzeRageClicks_def
  by (auto split: property.split option.split intro!: respond_view issue_views)

lemma analyzeRageClicks_Inr_io:
  assumes "analyzeRageClicks rs env io events = Some (Inr is)"
  shows "io = None"
proof -
  from assms obtain r rows where
    "respond io rows (rageClicks_issue r env) = Inr is"
    unfolding analyzeRageClicks_def
    by (auto split: property.splits option.splits)
  then show ?thesis by (rule respond_Inr_io)
qed

lemma analyzeDeadClicks_view:
  "map_option (map_sum id (map stable_part)) (analyzeDeadClicks rs env1 io events)
     = map_option (map_sum id (map stable_part)) (analyzeDeadClicks rs env2 io events)"
  unfolding analyzeDeadClicks_def
  by (auto split: property.split option.split intro!: respond_view issue_views)

lemma analyzeDeadClicks_Inr_io:
  assumes "analyzeDeadClicks rs env io events = Some (Inr is)"
  shows "io = None"
proof -
  from assms obtain r rows where
    "respond io rows (deadClicks_issue r env) = Inr is"
    unfolding analyzeDeadClicks_def
    by (auto split: property.splits option.splits if_splits)
  then show ?thesis by (rule respond_Inr_io)
qed

lemma analyzeHighExitRate_view:
  "map_option (map_sum id (map stable_part)) (analyzeHighExitRate rs env1 io events)
     = map_option (map_sum id (map stable_part)) (analyzeHighExitRate rs env2 io events)"
  unfolding analyzeHighExitRate_def
  by (auto split: property.split option.split intro!: respond_view issue_views)

lemma analyzeHighExitRate_Inr_io:
  assumes "analyzeHighExitRate rs env io events = Some (Inr is)"
  shows "io = None"
proof -
  from assms obtain r rows where
    "respond io rows (highExitRate_issue r env) = Inr is"
    unfolding analyzeHighExitRate_def
    by (auto split: property.splits option.splits)
  then show ?thesis by (rule respond_Inr_io)
qed

lemma promise_all_view:
  assumes "map (map_sum id (map stable_part)) ps1 = map (map_sum id (map stable_part)) ps2"
  shows "map_sum id (map (map stable_part)) (promise_all ps1)
           = map_sum id (map (map stable_part)) (promise_all ps2)"
  using assms
proof (induction ps1 arbitrary: ps2)
  case Nil
  then show ?case by simp
next
  case (Cons p ps1)
  from Cons.prems obtain q qs where ps2: "ps2 = q # qs"
    and hd: "map_sum id (map stable_part) p = map_sum id (map stable_part) q"
    and tl: "map (map_sum id (map stable_part)) ps1 = map (map_sum id (map stable_part)) qs"
    by (cases ps2) (auto simp: id_def)
  from Cons.IH [OF tl] hd show ?case
    unfolding ps2
    by (cases p; cases q; cases "promise_all ps1"; cases "promise_all qs") simp_all
qed

lemma attach_suggestions_view:
  assumes "stable_part x = stable_part y"
  shows "map_sum id stable_part (attach_suggestions cat env1 (n, x))
           = map_sum id stable_part (attach_suggestions cat env2 (m, y))"
proof -
  from assms have "ruleId (stable_part x) = ruleId (stable_part y)"
    by simp
  then have rid: "ruleId x = ruleId y"
    by (simp add: stable_part_def)
  have upd: "stable_part (z\<lparr>suggestions := Some s, detectedAt := d\<rparr>)
               = (stable_part z)\<lparr>suggestions := Some s\<rparr>" for z s d
    by (simp add: stable_part_def)
  show ?thesis
    unfolding attach_suggestions_def using rid assms
    by (cases "getSuggestionsForRule cat (ruleId y)") (simp_all add: upd)
qed

lemma for_each_attach_view:
  assumes "map stable_part xs = map stable_part ys"
  shows "map_sum id (map stable_part)
           (for_each (attach_suggestions cat env1) (enumerate n xs))
         = map_sum id (map stable_part)
           (for_each (attach_suggestions cat env2) (enumerate n ys))"
  using assms
proof (induction xs arbitrary: ys n)
  case Nil
  then show ?case by simp
next
  case (Cons x xs)
  from Cons.prems obtain y ys' where ys: "ys = y # ys'"
    and hd: "stable_part x = stable_part y"
    and tl: "map stable_part xs = map stable_part ys'"
    by (cases ys) auto
  have step: "map_sum id stable_part (attach_suggestions cat env1 (n, x))
           = map_sum id stable_part (attach_suggestions cat env2 (n, y))"
    by (rule attach_suggestions_view [OF hd])
  have rest: "map_sum id (map stable_part)
           (for_each (attach_suggestions cat env1) (enumerate (Suc n) xs))
         = map_sum id (map stable_part)
           (for_each (attach_suggestions cat env2) (enumerate (Suc n) ys'))"
    by (rule Cons.IH [OF tl])
  from step rest show ?case
    unfolding ys
    by (cases "attach_suggestions cat env1 (n, x)"; cases "attach_suggestions cat env2 (n, y)";
        cases "for_each (attach_suggestions cat env1) (enumerate (Suc n) xs)";
        cases "for_each (attach_suggestions cat env2) (enumerate (Suc n) ys')") simp_all
qed

lemma finish_view:
  assumes "map (map_sum id (map stable_part)) ps1 = map (map_sum id (map stable_part)) ps2"
  shows "map_sum id (map stable_part)
           (case promise_all ps1 of
              Inl f \<Rightarrow> Inl f
            | Inr found \<Rightarrow>
                (case for_each (attach_suggestions cat env1) (enumerate 0 (concat found)) of
                   Inl e \<Rightarrow> Inl (JsFailure e)
                 | Inr issues \<Rightarrow> Inr issues))
         = map_sum id (map stable_part)
           (case promise_all ps2 of
              Inl f \<Rightarrow> Inl f
            | Inr found \<Rightarrow>
                (case for_each (attach_suggestions cat env2) (enumerate 0 (concat found)) of
                   Inl e \<Rightarrow> Inl (JsFailure e)
                 | Inr issues \<Rightarrow> Inr issues))"
proof (cases "promise_all ps1")
  case (Inl f)
  with promise_all_view [OF assms] show ?thesis
    by (cases "promise_all ps2") simp_all
next
  case (Inr found1)
  with promise_all_view [OF assms] obtain found2 where
    p2: "promise_all ps2 = Inr found2"
    and eq: "map (map stable_part) found1 = map (map stable_part) found2"
    by (cases "promise_all ps2") simp_all
  have "map stable_part (concat found1) = map stable_part (concat found2)"
    using eq by (simp add: map_concat)
  then have "map_sum id (map stable_part)
           (for_each (attach_suggestions cat env1) (enumerate 0 (concat found1)))
         = map_sum id (map stable_part)
           (for_each (attach_suggestions cat env2) (enumerate 0 (concat found2)))"
    by (rule for_each_attach_view)
  then show ?thesis
    unfolding Inr p2
    by (cases "for_each (attach_suggestions cat env1) (enumerate 0 (concat found1))";
        cases "for_each (attach_suggestions cat env2) (enumerate 0 (concat found2))") simp_all
qed

lemma analyzeAllRules_view:
  "map_option (map_sum id (map stable_part)) (analyzeAllRules eng env1 io events)
     = map_option (map_sum id (map stable_part)) (analyzeAllRules eng env2 io events)"
proof -
  let ?V = "map_option (map_sum id (map stable_part))"
  let ?A = "\<lambda>env. analyzeLowClickRate (rules eng) env (io ''lowClickRate'') events"
  let ?B = "\<lambda>env. analyzeLowScrollDepth (rules eng) env (io ''lowScrollDepth'') events"
  let ?C = "\<lambda>env. analyzeRageClicks (rules eng) env (io ''rageClicks'') events"
  let ?D = "\<lambda>env. analyzeDeadClicks (rules eng) env (io ''deadClicks'') events"
  let ?E = "\<lambda>env. analyzeHighExitRate (rules eng) env (io ''highExitRate'') events"
  have v: "?V (?A env1) = ?V (?A env2)" "?V (?B env1) = ?V (?B env2)"
    "?V (?C env1) = ?V (?C env2)" "?V (?D env1) = ?V (?D env2)" "?V (?E env1) = ?V (?E env2)"
    by (rule analyzeLowClickRate_view analyzeLowScrollDepth_view analyzeRageClicks_view
        analyzeDeadClicks_view analyzeHighExitRate_view)+
  show ?thesis
  proof (cases "?A env1 = None \<or> ?B env1 = None \<or> ?C env1 = None \<or> ?D env1 = None
                  \<or> ?E env1 = None")
    case True
    with v have "?A env2 = None \<or> ?B env2 = None \<or> ?C env2 = None \<or> ?D env2 = None
                  \<or> ?E env2 = None"
      by (metis option.map_disc_iff)
    with True show ?thesis
      unfolding analyzeAllRules_def
      by (auto split: option.splits)
  next
    case False
    then obtain a b c d e where 1: "?A env1 = Some a" "?B env1 = Some b" "?C env1 = Some c"
      "?D env1 = Some d" "?E env1 = Some e"
      by auto
    with v obtain a' b' c' d' e' where 2: "?A env2 = Some a'" "?B env2 = Some b'"
      "?C env2 = Some c'" "?D env2 = Some d'" "?E env2 = Some e'"
      by (metis not_Some_eq option.map_disc_iff)
    from v have "map (map_sum id (map stable_part)) [a, b, c, d, e]
                   = map (map_sum id (map stable_part)) [a', b', c', d', e']"
      unfolding 1 2 by simp
    then have "map_sum id (map stable_part)
           (case promise_all [a, b, c, d, e] of
              Inl f \<Rightarrow> Inl f
            | Inr found \<Rightarrow>
                (case for_each (attach_suggestions (suggestionCatalog eng) env1)
                        (enumerate 0 (concat found)) of
                   Inl e \<Rightarrow> Inl (JsFailure e)
                 | Inr issues \<Rightarrow> Inr issues))
         = map_sum id (map stable_part)
           (case promise_all [a', b', c', d', e'] of
              Inl f \<Rightarrow> Inl f
            | Inr found \<Rightarrow>
                (case for_each (attach_suggestions (suggestionCatalog eng) env2)
                        (enumerate 0 (concat found)) of
                   Inl e \<Rightarrow> Inl (JsFailure e)
                 | Inr issues \<Rightarrow> Inr issues))"
      by (rule finish_view)
    then show ?thesis
      unfolding analyzeAllRules_def 1 2 by simp
  qed
qed

lemma analyzeAllRules_reads_ok:
  assumes "analyzeAllRules eng env io events = Some (Inr issues)"
  shows "io ''lowClickRate'' = None" and "io ''lowScrollDepth'' = None"
    and "io ''rageClicks'' = None" and "io ''deadClicks'' = None"
    and "io ''highExitRate'' = None"
proof -
  from analyzeAllRules_Some [OF assms] obtain a b c d e where
    parts: "analyzeLowClickRate (rules eng) env (io ''lowClickRate'') events = Some a"
      "analyzeLowScrollDepth (rules eng) env (io ''lowScrollDepth'') events = Some b"
      "analyzeRageClicks (rules eng) env (io ''rageClicks'') events = Some c"
      "analyzeDeadClicks (rules eng) env (io ''deadClicks'') events = Some d"
      "analyzeHighExitRate (rules eng) env (io ''highExitRate'') events = Some e"
    and res: "Inr issues = (case promise_all [a, b, c, d, e] of
                    Inl f \<Rightarrow> Inl f
                  | Inr found \<Rightarrow>
                      (case for_each (attach_suggestions (suggestionCatalog eng) env)
                              (enumerate 0 (concat found)) of
                         Inl e \<Rightarrow> Inl (JsFailure e)
                       | Inr issues \<Rightarrow> Inr issues))"
    by blast
  from res obtain found where all: "promise_all [a, b, c, d, e] = Inr found"
    by (cases "promise_all [a, b, c, d, e]"; simp split: sum.splits)
  from map_Inr_five [OF promise_all_Inr [OF all]] obtain a' b' c' d' e' where
    inr: "a = Inr a'" "b = Inr b'" "c = Inr c'" "d = Inr d'" "e = Inr e'"
    by blast
  show "io ''lowClickRate'' = None"
    using parts(1) unfolding inr by (rule analyzeLowClickRate_Inr_io)
  show "io ''lowScrollDepth'' = None"
    using parts(2) unfolding inr by (rule analyzeLowScrollDepth_Inr_io)
  show "io ''rageClicks'' = None"
    using parts(3) unfolding inr by (rule analyzeRageClicks_Inr_io)
  show "io ''deadClicks'' = None"
    using parts(4) unfolding inr by (rule analyzeDeadClicks_Inr_io)
  show "io ''highExitRate'' = None"
    using parts(5) unfolding inr by (rule analyzeHighExitRate_Inr_io)
qed

lemma flagged_view_stable_part: "flagged_view (stable_part i) = flagged_view i"
  by (simp add: flagged_view_def stable_part_def)

text \<open>
  Claim C6. Two calls of \<^verbatim>\<open>analyzeAllRules\<close> on the same engine state and the same
  store that both return issues return the same issues in the same order, whatever the
  clock and the random source give in either call, up to the issue identifiers and the
  \<^verbatim>\<open>detectedAt\<close> stamps: rule, name, severity, page, selector, description, metrics
  and suggestions agree. In particular the flagged (rule, page, selector) tuples and
  their metrics are the same.
\<close>

theorem analyzeAllRules_idempotent:
  assumes "analyzeAllRules eng env1 io1 events = Some (Inr issues1)"
    and "analyzeAllRules eng env2 io2 events = Some (Inr issues2)"
  shows "map flagged_view issues1 = map flagged_view issues2
       \<and> flagged_view ` set issues1 = flagged_view ` set issues2
       \<and> map stable_part issues1 = map stable_part issues2"
proof -
  note ok1 = analyzeAllRules_reads_ok [OF assms(1)]
  note ok2 = analyzeAllRules_reads_ok [OF assms(2)]
  have "analyzeAllRules eng env2 io2 events = analyzeAllRules eng env2 io1 events"
    unfolding analyzeAllRules_def ok1 ok2 by (rule refl)
  with assms(2) have "analyzeAllRules eng env2 io1 events = Some (Inr issues2)"
    by simp
  moreover have "map_option (map_sum id (map stable_part)) (analyzeAllRules eng env1 io1 events)
     = map_option (map_sum id (map stable_part)) (analyzeAllRules eng env2 io1 events)"
    by (rule analyzeAllRules_view)
  ultimately have part: "map stable_part issues1 = map stable_part issues2"
    using assms(1) by simp
  then have "map flagged_view (map stable_part issues1)
               = map flagged_view (map stable_part issues2)"
    by (rule arg_cong)
  then have eq: "map flagged_view issues1 = map flagged_view issues2"
    by (simp add: comp_def flagged_view_stable_part)
  then have "flagged_view ` set issues1 = flagged_view ` set issues2"
    by (metis set_map)
  with eq part show ?thesis by simp
qed

theorem analyzeAllRules_idempotent_witness:
  "\<exists>issues1 issues2.
      analyzeAllRules new_RulesEngine env0 (\<lambda>r. None) (dead_db @ exit_db) = Some (Inr issues1)
    \<and> analyzeAllRules new_RulesEngine later_env (\<lambda>r. None) (dead_db @ exit_db) = Some (Inr issues2)
    \<and> length issues1 = 3
    \<and> map issueId issues1 \<noteq> map issueId issues2
    \<and> map detectedAt issues1 \<noteq> map detectedAt issues2
    \<and> map flagged_view issues1 = map flagged_view issues2
    \<and> map stable_part issues1 = map stable_part issues2"
proof -
  have "case analyzeAllRules new_RulesEngine env0 (\<lambda>r. None) (dead_db @ exit_db) of
          Some (Inr issues1) \<Rightarrow> length issues1 = 3 | _ \<Rightarrow> False"
    by code_simp
  then obtain issues1 where
    run1: "analyzeAllRules new_RulesEngine env0 (\<lambda>r. None) (dead_db @ exit_db)
             = Some (Inr issues1)"
    and len: "length issues1 = 3"
    by (simp split: option.splits sum.splits)
  have "case analyzeAllRules new_RulesEngine later_env (\<lambda>r. None) (dead_db @ exit_db) of
          Some (Inr issues2) \<Rightarrow> True | _ \<Rightarrow> False"
    by code_simp
  then obtain issues2 where
    run2: "analyzeAllRules new_RulesEngine later_env (\<lambda>r. None) (dead_db @ exit_db)
             = Some (Inr issues2)"
    by (simp split: option.splits sum.splits)
  have "map_option (map_sum id (map issueId))
          (analyzeAllRules new_RulesEngine env0 (\<lambda>r. None) (dead_db @ exit_db))
        \<noteq> map_option (map_sum id (map issueId))
          (analyzeAllRules new_RulesEngine later_env (\<lambda>r. None) (dead_db @ exit_db))"
    by code_simp
  then have ids: "map issueId issues1 \<noteq> map issueId issues2"
    unfolding run1 run2 by simp
  have "map_option (map_sum id (map detectedAt))
          (analyzeAllRules new_RulesEngine env0 (\<lambda>r. None) (dead_db @ exit_db))
        \<noteq> map_option (map_sum id (map detectedAt))
          (analyzeAllRules new_RulesEngine later_env (\<lambda>r. None) (dead_db @ exit_db))"
    by code_simp
  then have stamps: "map detectedAt issues1 \<noteq> map detectedAt issues2"
    unfolding run1 run2 by simp
  note inst = analyzeAllRules_idempotent [OF run1 run2]
  from inst have view: "map flagged_view issues1 = map flagged_view issues2"
    by (elim conjE)
  from inst have part: "map stable_part issues1 = map stable_part issues2"
    by (elim conjE)
  from run1 run2 len ids stamps view part show ?thesis
    by blast
qed

end
